theory Spec2Isabelle
  imports
    Main
    "HOL-Library.AList"
    "HOL-Library.Char_ord"
    "HOL-Library.List_Lexorder"
    "HOL-Library.Product_Lexorder"
begin

section \<open>Python primitives used by \<open>file_io.py\<close>\<close>

text \<open>
  Strings are modelled as \<^typ>\<open>string\<close> over ASCII. The exceptions that the modelled
  functions can raise are values of \<open>error\<close>:
  \<^item> \<open>ValueError\<close>: raised by the interpreter when a tuple assignment does not get
    exactly two values, or when \<open>int()\<close> is given a text that is no integer literal;
  \<^item> \<open>InvalidAccession a\<close>: the \<open>ValueError\<close> that \<open>split_accession\<close> raises itself, with
    the message \<open>Invalid accession format: a\<close>;
  \<^item> \<open>StopIteration\<close>: \<open>next(f)\<close> on a file without a first line;
  \<^item> \<open>OSError\<close>: a file that exists and cannot be opened, read or parsed; it stands
    also for \<open>UnicodeDecodeError\<close> and for the errors of the parser of pandas, which the
    model does not tell apart.
\<close>

datatype error = ValueError | InvalidAccession string | StopIteration | OSError

text \<open>\<open>str.isspace\<close> on ASCII: tab, newline, vertical tab, form feed, carriage return,
  the four separators \<open>0x1C\<close> to \<open>0x1F\<close>, and the blank.\<close>

definition is_space :: "char \<Rightarrow> bool" where
  "is_space c = (let n = (of_char c :: nat) in (9 \<le> n \<and> n \<le> 13) \<or> (28 \<le> n \<and> n \<le> 32))"

text \<open>\<open>s.strip()\<close>: white space removed at both ends.\<close>

definition strip :: "string \<Rightarrow> string" where
  "strip s = rev (dropWhile is_space (rev (dropWhile is_space s)))"

text \<open>\<open>s.split(sep)\<close> for a separator of one character: the pieces between the
  separators, one more than there are separators, so never an empty list.\<close>

fun split_on :: "char \<Rightarrow> string \<Rightarrow> string list" where
  "split_on sep [] = [[]]"
| "split_on sep (c # cs) =
     (if c = sep then [] # split_on sep cs
      else (case split_on sep cs of
              [] \<Rightarrow> [[c]]
            | p # ps \<Rightarrow> (c # p) # ps))"

definition is_digit :: "char \<Rightarrow> bool" where
  "is_digit c = (let n = (of_char c :: nat) in 48 \<le> n \<and> n \<le> 57)"

definition digit_val :: "char \<Rightarrow> nat" where
  "digit_val c = of_char c - 48"

text \<open>The digits of a decimal literal after its first digit has been checked: digits,
  with single underscores allowed between two digits.\<close>

fun py_digits :: "nat \<Rightarrow> string \<Rightarrow> nat option" where
  "py_digits acc [] = Some acc"
| "py_digits acc [c] = (if is_digit c then Some (10 * acc + digit_val c) else None)"
| "py_digits acc (c # d # cs) =
     (if is_digit c then py_digits (10 * acc + digit_val c) (d # cs)
      else if c = CHR ''_'' \<and> is_digit d then py_digits acc (d # cs)
      else None)"

definition py_nat :: "string \<Rightarrow> nat option" where
  "py_nat s = (case s of [] \<Rightarrow> None | c # _ \<Rightarrow> if is_digit c then py_digits 0 s else None)"

text \<open>The white space that \<open>int()\<close> skips in a text of ASCII characters: tab, newline,
  vertical tab, form feed, carriage return and the blank. The separators \<open>0x1C\<close> to
  \<open>0x1F\<close>, which \<open>str.strip\<close> removes, are no white space for \<open>int()\<close>.\<close>

definition is_int_space :: "char \<Rightarrow> bool" where
  "is_int_space c = (let n = (of_char c :: nat) in (9 \<le> n \<and> n \<le> 13) \<or> n = 32)"

definition int_strip :: "string \<Rightarrow> string" where
  "int_strip s = rev (dropWhile is_int_space (rev (dropWhile is_int_space s)))"

text \<open>\<open>int(s)\<close> for a text \<open>s\<close> of ASCII characters: white space around the literal is
  skipped, one sign is allowed, leading zeros are allowed, and a literal of more than
  4300 digits (the limit of the interpreter as it is delivered) is refused; \<open>None\<close>
  stands for the \<open>ValueError\<close>.\<close>

definition py_int :: "string \<Rightarrow> int option" where
  "py_int s =
     (case int_strip s of
        [] \<Rightarrow> None
      | c # cs \<Rightarrow>
          if 4300 < length (filter is_digit (c # cs)) then None
          else if c = CHR ''-'' then map_option (\<lambda>n. - int n) (py_nat cs)
          else if c = CHR ''+'' then map_option int (py_nat cs)
          else map_option int (py_nat (c # cs)))"

text \<open>The texts of ASCII characters.\<close>

definition ascii :: "string \<Rightarrow> bool" where
  "ascii s = list_all (\<lambda>c. (of_char c :: nat) < 128) s"

text \<open>\<open>list(dict.fromkeys(xs))\<close>: the keys in the order of their first insertion.\<close>

definition fromkeys :: "'a list \<Rightarrow> 'a list" where
  "fromkeys xs = fold (\<lambda>k d. if k \<in> set d then d else d @ [k]) xs []"

section \<open>Accessions\<close>

text \<open>
  \<^verbatim>\<open>
  def split_accession(accession):
      try:
          accession_id, version = accession.split('.')
          return accession_id, int(version)
      except ValueError:
          print(accession)
          raise ValueError(f"Invalid accession format: {accession}")
  \<close>
\<close>

definition split_accession :: "string \<Rightarrow> error + (string \<times> int)" where
  "split_accession accession =
     (case split_on CHR ''.'' accession of
        [accession_id, version] \<Rightarrow>
          (case py_int version of
             Some v \<Rightarrow> Inr (accession_id, v)
           | None \<Rightarrow> Inl (InvalidAccession accession))
      | _ \<Rightarrow> Inl (InvalidAccession accession))"

section \<open>Tables and the debug file\<close>

text \<open>
  A row of a pandas table is its \<open>accession\<close> cell and its other cells (\<open>None\<close> for a
  missing value); a table is the list of its rows, each with its index label. The cells
  are texts: the type inference of \<open>read_csv\<close> is not modelled, accessions such as
  \<open>AB123456.1\<close> are read as texts.
\<close>

record entry =
  accession :: string
  cells :: "string option list"

type_synonym frame = "(nat \<times> entry) list"

text \<open>\<open>pd.DataFrame(rows)\<close> and \<open>pd.concat(..., ignore_index=True)\<close>: the labels are the
  positions \<open>0, 1, ...\<close>, the insertion indices.\<close>

definition range_index :: "entry list \<Rightarrow> frame" where
  "range_index rs = zip [0..<length rs] rs"

text \<open>A row of the debug file: the dropped row, the helper columns \<open>id\<close> and \<open>version\<close>
  when the table had them, and the \<open>reason\<close> column.\<close>

type_synonym debug_row = "entry \<times> (string \<times> int) option \<times> string"

text \<open>
  \<^verbatim>\<open>
  def save_dropped_rows(dropped_df, reason, logger=None):
      if dropped_df.empty:
          return
      ...
      dropped_df["reason"] = reason
      ...
      dropped_df.to_csv(debug_file, mode=mode, header=write_header, index=False)
  \<close>
  The rows are appended to the debug file of the run.
\<close>

definition save_dropped_rows ::
  "(entry \<times> (string \<times> int) option) list \<Rightarrow> string \<Rightarrow> debug_row list \<Rightarrow> debug_row list" where
  "save_dropped_rows dropped_df reason debug_file =
     (if dropped_df = [] then debug_file
      else debug_file @ map (\<lambda>(r, h). (r, h, reason)) dropped_df)"

section \<open>Resolution: \<open>duplicate_removal\<close>\<close>

text \<open>\<open>entries.duplicated(subset="accession", keep="last")\<close>: a row is marked when its
  accession text occurs again further down.\<close>

fun duplicated :: "frame \<Rightarrow> bool list" where
  "duplicated [] = []"
| "duplicated (r # rs) = (accession (snd r) \<in> set (map (accession \<circ> snd) rs)) # duplicated rs"

text \<open>\<open>entries[msk]\<close> for a mask \<open>msk\<close> of truth values.\<close>

definition select :: "bool list \<Rightarrow> 'a list \<Rightarrow> 'a list" where
  "select msk rs = map snd (filter fst (zip msk rs))"

definition drop_duplicates :: "frame \<Rightarrow> frame" where
  "drop_duplicates entries = select (map Not (duplicated entries)) entries"

text \<open>A row with the helper columns: label, row, \<open>id\<close>, \<open>version\<close>.\<close>

type_synonym keyed = "nat \<times> entry \<times> string \<times> int"

definition label :: "keyed \<Rightarrow> nat" where "label k = fst k"
definition row :: "keyed \<Rightarrow> entry" where "row k = fst (snd k)"
definition ident :: "keyed \<Rightarrow> string" where "ident k = fst (snd (snd k))"
definition version :: "keyed \<Rightarrow> int" where "version k = snd (snd (snd k))"

text \<open>\<open>entries[["id", "version"]] = entries['accession'].apply(lambda x:
  pd.Series(split_accession(x)))\<close>: the rows are split in order, the first accession
  that does not split raises. On a table without rows \<open>apply\<close> gives no columns and the
  assignment raises \<open>ValueError\<close> (both callers return before they pass such a table).\<close>

fun apply_split :: "frame \<Rightarrow> error + keyed list" where
  "apply_split [] = Inr []"
| "apply_split ((l, r) # rs) =
     (case split_accession (accession r) of
        Inl e \<Rightarrow> Inl e
      | Inr (i, v) \<Rightarrow>
          (case apply_split rs of
             Inl e \<Rightarrow> Inl e
           | Inr ks \<Rightarrow> Inr ((l, r, i, v) # ks)))"

definition add_id_version :: "frame \<Rightarrow> error + keyed list" where
  "add_id_version entries = (if entries = [] then Inl ValueError else apply_split entries)"

text \<open>\<open>idxmax\<close> of a column: the label of the first row that holds the maximum.\<close>

fun idxmax_from :: "nat \<Rightarrow> int \<Rightarrow> (nat \<times> int) list \<Rightarrow> nat" where
  "idxmax_from l v [] = l"
| "idxmax_from l v ((l', v') # rest) =
     (if v < v' then idxmax_from l' v' rest else idxmax_from l v rest)"

fun idxmax :: "(nat \<times> int) list \<Rightarrow> nat option" where
  "idxmax [] = None"
| "idxmax ((l, v) # rest) = Some (idxmax_from l v rest)"

text \<open>\<open>entries.groupby("id")\<close>: one group for each identifier, the groups in the sorted
  order of the identifiers, the rows of a group in the order of the table.\<close>

definition group_keys :: "keyed list \<Rightarrow> string list" where
  "group_keys ks = sort (remdups (map ident ks))"

definition group_of :: "string \<Rightarrow> keyed list \<Rightarrow> keyed list" where
  "group_of i ks = filter (\<lambda>k. ident k = i) ks"

text \<open>\<open>idx_to_keep = entries.groupby("id")["version"].idxmax()\<close>.\<close>

definition idx_to_keep :: "keyed list \<Rightarrow> nat list" where
  "idx_to_keep ks =
     List.map_filter (\<lambda>i. idxmax (map (\<lambda>k. (label k, version k)) (group_of i ks))) (group_keys ks)"

text \<open>\<open>entries.loc[labels]\<close>: the rows with these labels, in the order of the labels.\<close>

definition loc :: "nat list \<Rightarrow> keyed list \<Rightarrow> keyed list" where
  "loc labels ks = concat (map (\<lambda>l. filter (\<lambda>k. label k = l) ks) labels)"

text \<open>
  \<^verbatim>\<open>
  def duplicate_removal(entries, logger=None):
      duplicates_mask = entries.duplicated(subset="accession", keep="last")
      df_duplicates = entries[duplicates_mask].copy()
      if not df_duplicates.empty:
          save_dropped_rows(df_duplicates, reason="duplicate", logger=logger)
          entries.drop_duplicates(subset="accession", keep="last", inplace=True)
      entries[["id", "version"]] = entries['accession'].apply(...)
      idx_to_keep = entries.groupby("id")["version"].idxmax()
      df_older = entries.loc[~entries.index.isin(idx_to_keep)].copy()
      if not df_older.empty:
          save_dropped_rows(df_older, reason="update", logger=logger)
          entries = entries.loc[idx_to_keep]
      entries.drop(columns=["id", "version"], inplace=True)
      return entries
  \<close>
  The model takes the debug file and returns it with the result: the rows dropped as
  duplicates are written before the accessions are split, so they are there also when
  the split raises.
\<close>

definition duplicate_removal :: "frame \<Rightarrow> debug_row list \<Rightarrow> (error + frame) \<times> debug_row list" where
  "duplicate_removal entries debug_file =
     (let duplicates_mask = duplicated entries;
          df_duplicates = select duplicates_mask entries;
          debug1 = save_dropped_rows (map (\<lambda>(l, r). (r, None)) df_duplicates) ''duplicate'' debug_file;
          entries1 = (if df_duplicates \<noteq> [] then drop_duplicates entries else entries)
      in case add_id_version entries1 of
           Inl e \<Rightarrow> (Inl e, debug1)
         | Inr ks \<Rightarrow>
             (let idx = idx_to_keep ks;
                  df_older = filter (\<lambda>k. label k \<notin> set idx) ks;
                  debug2 = save_dropped_rows
                             (map (\<lambda>k. (row k, Some (ident k, version k))) df_older) ''update'' debug1;
                  entries2 = (if df_older \<noteq> [] then loc idx ks else ks)
              in (Inr (map (\<lambda>k. (label k, row k)) entries2), debug2)))"

section \<open>Files\<close>

text \<open>
  The paths of the stores are constants of \<open>global_defaults\<close>; a function of the model
  takes the file it reads. A file is absent (\<open>os.path.exists\<close> is false), or it exists
  and cannot be read (opening, reading or \<open>pd.read_csv\<close> raises), or it has a content.
  Failing writes are not modelled.
\<close>

datatype 'a disk_file = Absent | Unreadable | Content 'a

text \<open>\<open>s.endswith(suffix)\<close> and \<open>s.lower()\<close> on ASCII.\<close>

definition endswith :: "string \<Rightarrow> string \<Rightarrow> bool" where
  "endswith s suffix =
     (length suffix \<le> length s \<and> drop (length s - length suffix) s = suffix)"

definition lower_char :: "char \<Rightarrow> char" where
  "lower_char c =
     (let n = (of_char c :: nat) in if 65 \<le> n \<and> n \<le> 90 then char_of (n + 32) else c)"

definition lower :: "string \<Rightarrow> string" where
  "lower s = map lower_char s"

section \<open>The run ledger\<close>

text \<open>A file of the directory \<open>PROCESSED_IDS_DIR\<close>: its name, its creation time (\<open>None\<close>
  when \<open>os.path.getctime\<close> raises) and its lines (\<open>None\<close> when it cannot be read). Only
  the order of the creation times matters; they are modelled as integers.\<close>

record ledger_file =
  fname :: string
  ctime :: "int option"
  flines :: "string list option"

text \<open>\<open>max(files, key=os.path.getctime)\<close>: the first file with the greatest key; the
  key of every file is computed, and one that raises ends the search.\<close>

fun max_from :: "ledger_file \<Rightarrow> int \<Rightarrow> ledger_file list \<Rightarrow> ledger_file option" where
  "max_from best t [] = Some best"
| "max_from best t (f # fs) =
     (case ctime f of
        None \<Rightarrow> None
      | Some t' \<Rightarrow> if t < t' then max_from f t' fs else max_from best t fs)"

definition max_getctime :: "ledger_file list \<Rightarrow> ledger_file option" where
  "max_getctime files =
     (case files of
        [] \<Rightarrow> None
      | f # fs \<Rightarrow> (case ctime f of None \<Rightarrow> None | Some t \<Rightarrow> max_from f t fs))"

text \<open>
  \<^verbatim>\<open>
  def find_latest_processed_ids_file(logger=None):
      try:
          files = [os.path.join(PROCESSED_IDS_DIR, file)
                   for file in os.listdir(PROCESSED_IDS_DIR) if file.endswith(".txt")]
          if not files:
              return None
          latest_file = max(files, key=os.path.getctime)
          return latest_file
      except Exception as e:
          return None
  \<close>
  The directory is \<open>None\<close> when \<open>os.listdir\<close> raises. Every exception gives \<open>None\<close>.
\<close>

definition find_latest_processed_ids_file :: "ledger_file list option \<Rightarrow> ledger_file option" where
  "find_latest_processed_ids_file processed_ids_dir =
     (case processed_ids_dir of
        None \<Rightarrow> None
      | Some listing \<Rightarrow>
          (let files = filter (\<lambda>f. endswith (fname f) ''.txt'') listing
           in if files = [] then None else max_getctime files))"

text \<open>
  \<^verbatim>\<open>
  def load_processed_ids(logger=None):
      file_path = find_latest_processed_ids_file(logger)
      if file_path:
          with open(file_path, 'r') as f:
              processed_ids = [line.strip() for line in f]
          return processed_ids
      return []
  \<close>
\<close>

definition load_processed_ids :: "ledger_file list option \<Rightarrow> error + string list" where
  "load_processed_ids processed_ids_dir =
     (case find_latest_processed_ids_file processed_ids_dir of
        None \<Rightarrow> Inr []
      | Some file_path \<Rightarrow>
          (case flines file_path of
             None \<Rightarrow> Inl OSError
           | Some ls \<Rightarrow> Inr (map strip ls)))"

text \<open>
  \<^verbatim>\<open>
  def save_processed_ids(processed_ids, logger=None):
      file_path = CURRENT_PROCESSED_IDS_FILE
      old_processed_ids = load_processed_ids()
      all_processed_ids = list(dict.fromkeys(processed_ids + old_processed_ids))
      with open(file_path, 'w') as f:
          for seq_id in all_processed_ids:
              f.write(f"{seq_id}\n")
  \<close>
  The result of the model is the list of lines written to the new snapshot.
\<close>

definition save_processed_ids :: "string list \<Rightarrow> ledger_file list option \<Rightarrow> error + string list" where
  "save_processed_ids processed_ids processed_ids_dir =
     (case load_processed_ids processed_ids_dir of
        Inl e \<Rightarrow> Inl e
      | Inr old_processed_ids \<Rightarrow> Inr (fromkeys (processed_ids @ old_processed_ids)))"

section \<open>Loading the version index and the removed log\<close>

text \<open>A Python dictionary is an association list in insertion order; \<open>d[k] = v\<close> is
  \<^const>\<open>AList.update\<close>, which replaces the value of a key in place and appends a new
  key.\<close>

type_synonym versions = "(string \<times> int) list"

text \<open>
  \<^verbatim>\<open>
      for line in f:
          accession, version = line.strip().split('.')
          local_versions[accession] = int(version)
  \<close>
  \<open>version_line\<close> is the key and the value that one line stores, \<open>read_versions\<close> the
  loop.
\<close>

definition version_line :: "string \<Rightarrow> error + (string \<times> int)" where
  "version_line line =
     (case split_on CHR ''.'' (strip line) of
        [acc, ver] \<Rightarrow>
          (case py_int ver of
             None \<Rightarrow> Inl ValueError
           | Some v \<Rightarrow> Inr (acc, v))
      | _ \<Rightarrow> Inl ValueError)"

fun read_versions :: "string list \<Rightarrow> versions \<Rightarrow> error + versions" where
  "read_versions [] local_versions = Inr local_versions"
| "read_versions (line # ls) local_versions =
     (case version_line line of
        Inl e \<Rightarrow> Inl e
      | Inr (acc, v) \<Rightarrow> read_versions ls (AList.update acc v local_versions))"

text \<open>
  \<^verbatim>\<open>
  def load_local_versions(logger=None):
      if not os.path.exists(IDS_FILE):
          return {}
      local_versions = {}
      with open(IDS_FILE, 'r') as f:
          for line in f: ...
      return local_versions
  \<close>
\<close>

definition load_local_versions :: "string list disk_file \<Rightarrow> error + versions" where
  "load_local_versions ids_file =
     (case ids_file of
        Absent \<Rightarrow> Inr []
      | Unreadable \<Rightarrow> Inl OSError
      | Content ls \<Rightarrow> read_versions ls [])"

text \<open>The two kinds of value that \<open>load_removed_versions\<close> returns: a list, a dictionary.\<close>

datatype removed_versions = PyList "string list" | PyDict versions

text \<open>
  \<^verbatim>\<open>
          for line in f:
              accession_num, _ = line.strip().split(',')
              accession, version = accession_num.strip().split('.')
              local_removed[accession] = int(version)
  \<close>
  \<open>removed_line\<close> is the key and the value that one line stores, \<open>read_removed\<close> the
  loop.
\<close>

definition removed_line :: "string \<Rightarrow> error + (string \<times> int)" where
  "removed_line line =
     (case split_on CHR '','' (strip line) of
        [accession_num, _] \<Rightarrow>
          (case split_on CHR ''.'' (strip accession_num) of
             [acc, ver] \<Rightarrow>
               (case py_int ver of
                  None \<Rightarrow> Inl ValueError
                | Some v \<Rightarrow> Inr (acc, v))
           | _ \<Rightarrow> Inl ValueError)
      | _ \<Rightarrow> Inl ValueError)"

fun read_removed :: "string list \<Rightarrow> versions \<Rightarrow> error + versions" where
  "read_removed [] local_removed = Inr local_removed"
| "read_removed (line # ls) local_removed =
     (case removed_line line of
        Inl e \<Rightarrow> Inl e
      | Inr (acc, v) \<Rightarrow> read_removed ls (AList.update acc v local_removed))"

text \<open>
  \<^verbatim>\<open>
  def load_removed_versions(logger=None):
      if not os.path.exists(REMOVED_IDS_FILE):
          return []
      local_removed = {}
      with open(REMOVED_IDS_FILE, 'r') as f:
          next(f)
          for line in f: ...
      return local_removed
  \<close>
\<close>

definition load_removed_versions :: "string list disk_file \<Rightarrow> error + removed_versions" where
  "load_removed_versions removed_ids_file =
     (case removed_ids_file of
        Absent \<Rightarrow> Inr (PyList [])
      | Unreadable \<Rightarrow> Inl OSError
      | Content [] \<Rightarrow> Inl StopIteration
      | Content (header # ls) \<Rightarrow>
          (case read_removed ls [] of
             Inl e \<Rightarrow> Inl e
           | Inr local_removed \<Rightarrow> Inr (PyDict local_removed)))"

section \<open>Pruning: \<open>clean_profiles_from_data\<close>\<close>

text \<open>A CSV file as a table: the names of the columns and the rows, each the list of its
  fields in the order of the columns. A field is its text; \<open>None\<close> is a missing value
  (an empty field, or a text such as \<open>NA\<close> that \<open>pd.read_csv\<close> takes as missing).\<close>

record table =
  columns :: "string list"
  rows :: "string option list list"

text \<open>
  The files and the directory that the function touches, and what the function cannot
  decide itself:
  \<^item> \<open>seqs_dir\<close> is the list of names that \<open>os.listdir(SEQS_DIR)\<close> returns, \<open>undeletable\<close>
    lists the names for which \<open>os.remove\<close> raises;
  \<^item> \<open>ids_write\<close>, \<open>removed_write\<close> and \<open>metadata_write\<close> are \<open>None\<close> when writing the
    file succeeds; otherwise they hold the state in which the failing write leaves the
    file (as it was when it cannot be opened for writing, truncated when the write
    breaks off);
  \<^item> \<open>pd.read_csv\<close> is called without \<open>dtype\<close>: it takes a column as texts, or converts
    it to numbers or booleans, depending on all fields of the column. pandas is not
    part of the repository, so that its decision is a parameter: \<open>text_column col\<close>
    says that a column with the fields \<open>col\<close> is taken as texts;
  \<^item> \<open>written df msk\<close> is the table in the file that \<open>df[msk].to_csv(path, index=False)\<close>
    writes, for the table \<open>df\<close> of the file that was read and the mask \<open>msk\<close> of the
    rows that are kept.
\<close>

record stores =
  ids_file :: "string list disk_file"
  removed_ids_file :: "table disk_file"
  metadata_file :: "table disk_file"
  seqs_dir :: "string list disk_file"
  undeletable :: "string list"
  ids_write :: "string list disk_file option"
  removed_write :: "table disk_file option"
  metadata_write :: "table disk_file option"
  text_column :: "string option list \<Rightarrow> bool"
  written :: "table \<Rightarrow> bool list \<Rightarrow> table"

text \<open>What the function reports to the logger it is given.\<close>

datatype store = IDS_FILE | REMOVED_IDS_FILE | METADATA_FILE | SEQS_DIR

datatype message =
    Removed store nat
  | NoneRemoved store
  | NoAccessionColumn
  | ErrorUpdating store
  | RemovedFasta string
  | ErrorRemoving string

text \<open>
  \<^verbatim>\<open>
      if os.path.exists(IDS_FILE):
          try:
              with open(IDS_FILE, "r") as f:
                  lines = [line.strip() for line in f if line.strip()]
              before_count = len(lines)
              kept_lines = [ln for ln in lines if ln in keep_set]
              after_count = len(kept_lines)
              if after_count < before_count:
                  with open(IDS_FILE, "w") as f:
                      for ln in kept_lines:
                          f.write(ln + "\n")
                  logger.info("Removed ...")
              else:
                  logger.info("No entries removed ...")
          except Exception as e:
              logger.error(...)
  \<close>
  The arguments are the keep-set, the outcome of a failing write and the file.
\<close>

definition stripped_lines :: "string list \<Rightarrow> string list" where
  "stripped_lines f = filter (\<lambda>l. l \<noteq> []) (map strip f)"

definition clean_ids_file ::
  "string set \<Rightarrow> string list disk_file option \<Rightarrow> string list disk_file
     \<Rightarrow> string list disk_file \<times> message list" where
  "clean_ids_file keep_set failing f =
     (case f of
        Absent \<Rightarrow> (Absent, [])
      | Unreadable \<Rightarrow> (Unreadable, [ErrorUpdating IDS_FILE])
      | Content raw \<Rightarrow>
          (let lines = stripped_lines raw;
               before_count = length lines;
               kept_lines = filter (\<lambda>ln. ln \<in> keep_set) lines;
               after_count = length kept_lines
           in if after_count < before_count
              then (case failing of
                      None \<Rightarrow> (Content kept_lines, [Removed IDS_FILE (before_count - after_count)])
                    | Some broken \<Rightarrow> (broken, [ErrorUpdating IDS_FILE]))
              else (Content raw, [NoneRemoved IDS_FILE])))"

text \<open>\<open>df[name]\<close> is the column with that name, a \<open>KeyError\<close> when there is none; the
  position of the column is that of the first such name. A row shorter than the header is
  filled with missing values.\<close>

definition column_position :: "string \<Rightarrow> table \<Rightarrow> nat option" where
  "column_position name df =
     (if name \<in> set (columns df)
      then Some (length (takeWhile (\<lambda>c. c \<noteq> name) (columns df)))
      else None)"

definition cell_at :: "nat \<Rightarrow> string option list \<Rightarrow> string option" where
  "cell_at i r = (if i < length r then r ! i else None)"

definition column_fields :: "nat \<Rightarrow> table \<Rightarrow> string option list" where
  "column_fields i df = map (cell_at i) (rows df)"

text \<open>The values of the column at position \<open>i\<close> that are texts, as \<open>pd.read_csv\<close>
  returns them: the fields of the column when it is taken as texts, and no text at all
  (\<open>None\<close> in every row) when it is converted.\<close>

definition column_values :: "(string option list \<Rightarrow> bool) \<Rightarrow> nat \<Rightarrow> table \<Rightarrow> string option list" where
  "column_values tc i df =
     (if tc (column_fields i df) then column_fields i df
      else map (\<lambda>_. None) (column_fields i df))"

text \<open>\<open>df["accession"].isin(keep_set)\<close>, given the position of the column; a value that
  is no text is in no set of texts. \<open>keep_rows\<close> is \<open>df[df["accession"].isin(keep_set)]\<close>.\<close>

definition isin :: "string set \<Rightarrow> string option \<Rightarrow> bool" where
  "isin keep_set c = (case c of None \<Rightarrow> False | Some a \<Rightarrow> a \<in> keep_set)"

definition keep_mask :: "(string option list \<Rightarrow> bool) \<Rightarrow> string set \<Rightarrow> nat \<Rightarrow> table \<Rightarrow> bool list" where
  "keep_mask tc keep_set i df = map (isin keep_set) (column_values tc i df)"

definition keep_rows :: "(string option list \<Rightarrow> bool) \<Rightarrow> string set \<Rightarrow> nat \<Rightarrow> table \<Rightarrow> table" where
  "keep_rows tc keep_set i df = df\<lparr>rows := select (keep_mask tc keep_set i df) (rows df)\<rparr>"

text \<open>
  \<^verbatim>\<open>
      if os.path.exists(REMOVED_IDS_FILE):
          try:
              df_removed = pd.read_csv(REMOVED_IDS_FILE)
              before_count = len(df_removed)
              df_removed = df_removed[df_removed["accession"].isin(keep_set)]
              after_count = len(df_removed)
              if after_count < before_count:
                  df_removed.to_csv(REMOVED_IDS_FILE, index=False)
                  logger.info("Removed ...")
              else:
                  logger.info("No rows removed ...")
          except Exception as e:
              logger.error(...)
  \<close>
  A table without the column raises \<open>KeyError\<close>, which is caught like a failing read. The
  arguments are \<open>text_column\<close>, \<open>written\<close>, the keep-set, the outcome of a failing write
  and the file.
\<close>

definition clean_removed_ids_file ::
  "(string option list \<Rightarrow> bool) \<Rightarrow> (table \<Rightarrow> bool list \<Rightarrow> table) \<Rightarrow> string set
     \<Rightarrow> table disk_file option \<Rightarrow> table disk_file \<Rightarrow> table disk_file \<times> message list" where
  "clean_removed_ids_file tc wr keep_set failing f =
     (case f of
        Absent \<Rightarrow> (Absent, [])
      | Unreadable \<Rightarrow> (Unreadable, [ErrorUpdating REMOVED_IDS_FILE])
      | Content df_removed \<Rightarrow>
          (case column_position ''accession'' df_removed of
             None \<Rightarrow> (Content df_removed, [ErrorUpdating REMOVED_IDS_FILE])
           | Some i \<Rightarrow>
               (let before_count = length (rows df_removed);
                    df_removed' = keep_rows tc keep_set i df_removed;
                    after_count = length (rows df_removed')
                in if after_count < before_count
                   then (case failing of
                           None \<Rightarrow>
                             (Content (wr df_removed (keep_mask tc keep_set i df_removed)),
                              [Removed REMOVED_IDS_FILE (before_count - after_count)])
                         | Some broken \<Rightarrow> (broken, [ErrorUpdating REMOVED_IDS_FILE]))
                   else (Content df_removed, [NoneRemoved REMOVED_IDS_FILE]))))"

text \<open>
  \<^verbatim>\<open>
      if os.path.exists(METADATA_FILE):
          try:
              df_meta = pd.read_csv(METADATA_FILE)
              if "accession" in df_meta.columns:
                  before_count = len(df_meta)
                  df_meta = df_meta[df_meta["accession"].isin(keep_set)]
                  after_count = len(df_meta)
                  if after_count < before_count:
                      df_meta.to_csv(METADATA_FILE, index=False)
                      logger.info("Removed ...")
                  else:
                      logger.info("No rows removed ...")
              else:
                  logger.warning("No 'accession' column ...; skipping removal.")
          except Exception as e:
              logger.error(...)
  \<close>
\<close>

definition clean_metadata_file ::
  "(string option list \<Rightarrow> bool) \<Rightarrow> (table \<Rightarrow> bool list \<Rightarrow> table) \<Rightarrow> string set
     \<Rightarrow> table disk_file option \<Rightarrow> table disk_file \<Rightarrow> table disk_file \<times> message list" where
  "clean_metadata_file tc wr keep_set failing f =
     (case f of
        Absent \<Rightarrow> (Absent, [])
      | Unreadable \<Rightarrow> (Unreadable, [ErrorUpdating METADATA_FILE])
      | Content df_meta \<Rightarrow>
          (case column_position ''accession'' df_meta of
             Some i \<Rightarrow>
               (let before_count = length (rows df_meta);
                    df_meta' = keep_rows tc keep_set i df_meta;
                    after_count = length (rows df_meta')
                in if after_count < before_count
                   then (case failing of
                           None \<Rightarrow>
                             (Content (wr df_meta (keep_mask tc keep_set i df_meta)),
                              [Removed METADATA_FILE (before_count - after_count)])
                         | Some broken \<Rightarrow> (broken, [ErrorUpdating METADATA_FILE]))
                   else (Content df_meta, [NoneRemoved METADATA_FILE]))
           | None \<Rightarrow> (Content df_meta, [NoAccessionColumn])))"

text \<open>\<open>acc.split(".")[0]\<close>: the text before the first separator.\<close>

definition first_part :: "string \<Rightarrow> string" where
  "first_part acc = (case split_on CHR ''.'' acc of [] \<Rightarrow> [] | p # _ \<Rightarrow> p)"

text \<open>\<open>os.path.splitext(name)[0]\<close> for a name without directory: the name up to its last
  dot; the whole name when it has no dot or only dots before the last one.\<close>

definition splitext_root :: "string \<Rightarrow> string" where
  "splitext_root name =
     (let r = rev (drop 1 (dropWhile (\<lambda>c. c \<noteq> CHR ''.'') (rev name)))
      in if CHR ''.'' \<notin> set name \<or> list_all (\<lambda>c. c = CHR ''.'') r then name else r)"

text \<open>
  \<^verbatim>\<open>
      if os.path.exists(SEQS_DIR):
          try:
              valid_roots = set(acc.split(".")[0] for acc in keep_set)
              all_files = os.listdir(SEQS_DIR)
              fasta_files = [f for f in all_files if f.lower().endswith(".fasta")]
              removed_count = 0
              for fasta_name in fasta_files:
                  root_name = os.path.splitext(fasta_name)[0]
                  if root_name not in valid_roots:
                      full_path = os.path.join(SEQS_DIR, fasta_name)
                      try:
                          os.remove(full_path)
                          removed_count += 1
                          logger.debug(...)
                      except Exception as e:
                          logger.error(...)
              if logger and removed_count > 0:
                  logger.info("Removed ...")
          except Exception as e:
              logger.error(...)
  \<close>
  The loop over \<open>fasta_files\<close>, with the names left in the directory, the count and the
  messages so far; \<open>os.remove\<close> raises for an undeletable name and for a name that is no
  longer there:
\<close>

fun remove_fasta ::
  "string set \<Rightarrow> string list \<Rightarrow> string list \<Rightarrow> string list \<times> nat \<times> message list
     \<Rightarrow> string list \<times> nat \<times> message list" where
  "remove_fasta valid_roots undel [] acc = acc"
| "remove_fasta valid_roots undel (fasta_name # fs) (dir, removed_count, msgs) =
     (let root_name = splitext_root fasta_name
      in if root_name \<notin> valid_roots
         then (if fasta_name \<in> set undel \<or> fasta_name \<notin> set dir
               then remove_fasta valid_roots undel fs
                      (dir, removed_count, msgs @ [ErrorRemoving fasta_name])
               else remove_fasta valid_roots undel fs
                      (removeAll fasta_name dir, removed_count + 1, msgs @ [RemovedFasta fasta_name]))
         else remove_fasta valid_roots undel fs (dir, removed_count, msgs))"

definition clean_seqs_dir ::
  "string set \<Rightarrow> string list \<Rightarrow> string list disk_file \<Rightarrow> string list disk_file \<times> message list" where
  "clean_seqs_dir keep_set undel d =
     (case d of
        Absent \<Rightarrow> (Absent, [])
      | Unreadable \<Rightarrow> (Unreadable, [ErrorUpdating SEQS_DIR])
      | Content all_files \<Rightarrow>
          (let valid_roots = first_part ` keep_set;
               fasta_files = filter (\<lambda>f. endswith (lower f) ''.fasta'') all_files
           in case remove_fasta valid_roots undel fasta_files (all_files, 0, []) of
                (dir, removed_count, msgs) \<Rightarrow>
                  (Content dir, msgs @ (if removed_count > 0 then [Removed SEQS_DIR removed_count] else []))))"

text \<open>
  \<^verbatim>\<open>
  def clean_profiles_from_data(ids_list, logger=None):
      keep_set = set(ids_list)
      ...
      return 0
  \<close>
  The model returns the value of the function, the stores after it, and the messages.
\<close>

definition clean_profiles_from_data :: "string list \<Rightarrow> stores \<Rightarrow> int \<times> stores \<times> message list" where
  "clean_profiles_from_data ids_list st =
     (let keep_set = set ids_list;
          (ids', m1) = clean_ids_file keep_set (ids_write st) (ids_file st);
          (removed', m2) = clean_removed_ids_file (text_column st) (written st) keep_set
                             (removed_write st) (removed_ids_file st);
          (meta', m3) = clean_metadata_file (text_column st) (written st) keep_set
                          (metadata_write st) (metadata_file st);
          (seqs', m4) = clean_seqs_dir keep_set (undeletable st) (seqs_dir st)
      in (0,
          st\<lparr>ids_file := ids', removed_ids_file := removed', metadata_file := meta', seqs_dir := seqs'\<rparr>,
          m1 @ m2 @ m3 @ m4))"

text \<open>The accessions that the fields of a column hold, and the root names of the sequence
  files among the names of a directory.\<close>

definition table_accessions :: "nat \<Rightarrow> table \<Rightarrow> string set" where
  "table_accessions i df = {a. Some a \<in> set (column_fields i df)}"

definition fasta_roots :: "string list \<Rightarrow> string set" where
  "fasta_roots all_files =
     set (map splitext_root (filter (\<lambda>f. endswith (lower f) ''.fasta'') all_files))"

text \<open>The accession column of a table is read as texts, and the file written for the rows
  that are kept has the column at the same place, with the fields of these rows as they
  were read.\<close>

definition accession_texts_kept ::
  "(string option list \<Rightarrow> bool) \<Rightarrow> (table \<Rightarrow> bool list \<Rightarrow> table) \<Rightarrow> string set \<Rightarrow> table \<Rightarrow> bool" where
  "accession_texts_kept tc wr keep_set df =
     (case column_position ''accession'' df of
        None \<Rightarrow> True
      | Some i \<Rightarrow>
          tc (column_fields i df)
          \<and> column_position ''accession'' (wr df (keep_mask tc keep_set i df)) = Some i
          \<and> column_fields i (wr df (keep_mask tc keep_set i df))
              = select (keep_mask tc keep_set i df) (column_fields i df))"

text \<open>The accession fields of the rows that are kept are read as texts again (or no row
  is kept).\<close>

definition kept_texts_reread :: "(string option list \<Rightarrow> bool) \<Rightarrow> string set \<Rightarrow> table \<Rightarrow> bool" where
  "kept_texts_reread tc keep_set df =
     (case column_position ''accession'' df of
        None \<Rightarrow> True
      | Some i \<Rightarrow>
          select (keep_mask tc keep_set i df) (column_fields i df) = []
          \<or> tc (select (keep_mask tc keep_set i df) (column_fields i df)))"

section \<open>Post-processing of the metadata: \<open>post_process_metadata\<close>\<close>

text \<open>What the function reports to the logger: the highest version of an identifier is
  not its most recently added row (identifier, accession of the highest version); a row
  has more filled fields than the highest version (index, identifier, version of the
  row).\<close>

datatype warning = NotMostRecent string string | MoreFilled nat string int

text \<open>\<open>row.notna().sum()\<close>: the filled cells of a row, among them its accession and the
  three helper columns \<open>index\<close>, \<open>id\<close> and \<open>version\<close>.\<close>

definition notna_count :: "keyed \<Rightarrow> nat" where
  "notna_count k = 4 + length (filter (\<lambda>c. c \<noteq> None) (cells (row k)))"

text \<open>\<open>meta_df.sort_values(by=['id', 'version', 'index'], ascending=[True, False, True])\<close>;
  the column \<open>index\<close> holds the labels.\<close>

definition sort_values :: "keyed list \<Rightarrow> keyed list" where
  "sort_values ks = sort_key (\<lambda>k. (ident k, - version k, label k)) ks"

text \<open>
  \<^verbatim>\<open>
      for _, group in meta_df.groupby('id'):
          best_row = group.iloc[0]
          if best_row['index'] != group['index'].max():
              logger.warning("Highest version for ID ... is not the most recently added row. ...")
          for _, row in group.iloc[1:].iterrows():
              if row.notna().sum() > best_row.notna().sum():
                  logger.warning("Row ... has more filled fields than the highest version ...")
          # split up any tied highest versions (same ID, same version) by most recently added
          max_version_rows = group[group['version'] == best_row['version']]
          best_rows = max_version_rows.loc[max_version_rows['index'] == max_version_rows['index'].max()]
          rows_to_keep.append(best_rows)
  \<close>
  The body of the loop for one group, which is never empty: its warnings and the rows it
  appends.
\<close>

definition group_warnings :: "keyed list \<Rightarrow> warning list" where
  "group_warnings grp =
     (case grp of
        [] \<Rightarrow> []
      | best_row # others \<Rightarrow>
          (if label best_row \<noteq> Max (set (map label grp))
           then [NotMostRecent (ident best_row) (accession (row best_row))] else [])
          @ map (\<lambda>k. MoreFilled (label k) (ident k) (version k))
              (filter (\<lambda>k. notna_count k > notna_count best_row) others))"

definition best_rows :: "keyed list \<Rightarrow> keyed list" where
  "best_rows grp =
     (case grp of
        [] \<Rightarrow> []
      | best_row # _ \<Rightarrow>
          (let max_version_rows = filter (\<lambda>k. version k = version best_row) grp
           in filter (\<lambda>k. label k = Max (set (map label max_version_rows))) max_version_rows))"

definition rows_to_keep :: "keyed list \<Rightarrow> keyed list list" where
  "rows_to_keep meta_df = map (\<lambda>i. best_rows (group_of i meta_df)) (group_keys meta_df)"

text \<open>\<open>df.drop_duplicates(keep=False)\<close>: the rows whose content occurs once.\<close>

definition drop_duplicates_all :: "entry list \<Rightarrow> entry list" where
  "drop_duplicates_all rs = filter (\<lambda>r. count_list rs r = 1) rs"

text \<open>
  \<^verbatim>\<open>
  def post_process_metadata(logger=None):
      if not os.path.exists(METADATA_FILE):
          logger.error(...)
          return
      meta_df = pd.read_csv(METADATA_FILE)
      meta_df['index'] = meta_df.index # order of fetched
      meta_df[['id', 'version']] = meta_df['accession'].apply(lambda x: pd.Series(split_accession(x)))
      meta_df = meta_df.sort_values(by=['id', 'version', 'index'], ascending=[True, False, True])
      rows_to_keep = []
      for _, group in meta_df.groupby('id'): ...
      final_df = pd.concat(rows_to_keep).drop(columns=['id', 'version', 'index']).reset_index(drop=True)
      removed_df = pd.concat([meta_df.drop(columns=['id', 'version', 'index']), final_df]).drop_duplicates(keep=False)
      final_df.to_csv(METADATA_FILE, index=False)
      if len(removed_df) > 0:
          removed_df.to_csv(removed_file, index=False)
  \<close>
  The argument is the metadata table as \<open>read_csv\<close> returns it, with its accession
  column read as texts. The result is \<open>None\<close> when the function returns without the file; otherwise
  the rows written to the metadata file, the removed rows (written to a debug file when
  there are any) and the warnings. A file that cannot be read raises.
\<close>

definition post_process_metadata ::
  "entry list disk_file \<Rightarrow> error + (entry list \<times> entry list \<times> warning list) option" where
  "post_process_metadata f =
     (case f of
        Absent \<Rightarrow> Inr None
      | Unreadable \<Rightarrow> Inl OSError
      | Content rs \<Rightarrow>
          (case add_id_version (range_index rs) of
             Inl e \<Rightarrow> Inl e
           | Inr ks \<Rightarrow>
               (let meta_df = sort_values ks;
                    final_df = map row (concat (rows_to_keep meta_df));
                    removed_df = drop_duplicates_all (map row meta_df @ final_df);
                    warnings = concat (map (\<lambda>i. group_warnings (group_of i meta_df)) (group_keys meta_df))
                in Inr (Some (final_df, removed_df, warnings)))))"

section \<open>The stores of the examples\<close>

text \<open>
  What pandas does in the examples. \<open>pd.read_csv\<close> reads a field of digits, a point and
  digits, such as \<open>12345.1\<close>, as a number; a column in which every field that is not
  missing is of this form is converted to numbers, and a column with a field such as
  \<open>A1.1\<close> is taken as texts. \<open>to_csv\<close> writes the fields of the rows that are kept as
  they were read.
\<close>

definition decimal_text :: "string \<Rightarrow> bool" where
  "decimal_text s =
     (case split_on CHR ''.'' s of
        [a, b] \<Rightarrow> a \<noteq> [] \<and> b \<noteq> [] \<and> list_all is_digit a \<and> list_all is_digit b
      | _ \<Rightarrow> False)"

definition example_text_column :: "string option list \<Rightarrow> bool" where
  "example_text_column col =
     list_ex (\<lambda>c. case c of None \<Rightarrow> False | Some a \<Rightarrow> \<not> decimal_text a) col"

definition example_written :: "table \<Rightarrow> bool list \<Rightarrow> table" where
  "example_written df msk = df\<lparr>rows := select msk (rows df)\<rparr>"

text \<open>The stores of scenario C: a version index with \<open>A1.1\<close>, \<open>A1.2\<close>, \<open>B2.1\<close>, a removed
  log, a metadata table, and the sequence files \<open>A1.fasta\<close> and \<open>B2.fasta\<close>. Every file
  can be written and deleted.\<close>

definition scenario_C :: stores where
  "scenario_C =
     \<lparr>ids_file = Content [''A1.1'', ''A1.2'', ''B2.1''],
      removed_ids_file =
        Content \<lparr>columns = [''accession'', ''filter''], rows = [[Some ''C3.1'', Some ''length'']]\<rparr>,
      metadata_file =
        Content \<lparr>columns = [''accession'', ''country''],
                 rows = [[Some ''A1.1'', None], [Some ''A1.2'', Some ''AT''], [Some ''B2.1'', Some ''DE'']]\<rparr>,
      seqs_dir = Content [''A1.fasta'', ''B2.fasta''],
      undeletable = [],
      ids_write = None,
      removed_write = None,
      metadata_write = None,
      text_column = example_text_column,
      written = example_written\<rparr>"

text \<open>Stores whose metadata table holds the accessions \<open>A1.1\<close> and \<open>12345.1\<close>.\<close>

definition numeric_stores :: stores where
  "numeric_stores =
     \<lparr>ids_file = Content [''A1.1'', ''12345.1''],
      removed_ids_file = Absent,
      metadata_file =
        Content \<lparr>columns = [''accession'', ''country''],
                 rows = [[Some ''A1.1'', Some ''AT''], [Some ''12345.1'', Some ''DE'']]\<rparr>,
      seqs_dir = Content [''A1.fasta'', ''12345.fasta''],
      undeletable = [],
      ids_write = None,
      removed_write = None,
      metadata_write = None,
      text_column = example_text_column,
      written = example_written\<rparr>"

section \<open>Properties of the primitives\<close>

lemma split_on_not_Nil: "split_on sep s \<noteq> []"
  by (induction s) (auto split: list.splits)

lemma split_on_length: "length (split_on sep s) = Suc (count_list s sep)"
  by (induction s) (auto split: list.splits simp: split_on_not_Nil)

lemma split_on_no_sep: "sep \<notin> set s \<Longrightarrow> split_on sep s = [s]"
  by (induction s) auto

lemma split_on_one_sep:
  "count_list s sep = 1 \<Longrightarrow>
   split_on sep s = [takeWhile (\<lambda>c. c \<noteq> sep) s, drop 1 (dropWhile (\<lambda>c. c \<noteq> sep) s)]"
proof (induction s)
  case Nil
  then show ?case by simp
next
  case (Cons c cs)
  show ?case
  proof (cases "c = sep")
    case True
    with Cons.prems have "count_list cs sep = 0" by simp
    then have "sep \<notin> set cs" by (simp add: count_list_0_iff)
    with True show ?thesis by (simp add: split_on_no_sep)
  next
    case False
    with Cons.prems have "count_list cs sep = 1" by simp
    from Cons.IH [OF this] False show ?thesis by simp
  qed
qed

lemma remdups_snoc: "remdups (ys @ [x]) = filter (\<lambda>y. y \<noteq> x) (remdups ys) @ [x]"
  by (induction ys) auto

lemma first_occurrences_Cons:
  "rev (remdups (rev (x # xs))) = x # filter (\<lambda>y. y \<noteq> x) (rev (remdups (rev xs)))"
  by (simp add: remdups_snoc rev_filter)

lemma fromkeys_fold:
  "distinct d \<Longrightarrow>
   fold (\<lambda>k d. if k \<in> set d then d else d @ [k]) xs d
     = d @ filter (\<lambda>x. x \<notin> set d) (rev (remdups (rev xs)))"
proof (induction xs arbitrary: d)
  case Nil
  then show ?case by simp
next
  case (Cons x xs)
  show ?case
  proof (cases "x \<in> set d")
    case True
    then have "filter (\<lambda>y. y \<notin> set d) (filter (\<lambda>y. y \<noteq> x) (rev (remdups (rev xs))))
      = filter (\<lambda>y. y \<notin> set d) (rev (remdups (rev xs)))"
      by (auto intro: filter_cong)
    with True Cons show ?thesis
      by (simp only: first_occurrences_Cons fold_Cons comp_def if_True filter.simps if_False simp_thms)
  next
    case False
    with Cons.prems have "distinct (d @ [x])" by simp
    from Cons.IH [OF this] False show ?thesis
      by (simp only: first_occurrences_Cons fold_Cons comp_def) (auto intro: filter_cong)
  qed
qed

text \<open>\<open>fromkeys\<close> keeps the first occurrence of every key, in the order of the list.\<close>

lemma fromkeys_first_occurrences: "fromkeys xs = rev (remdups (rev xs))"
  using fromkeys_fold [of "[]" xs] by (simp add: fromkeys_def)

lemma first_occurrences_append:
  "rev (remdups (rev (xs @ ys)))
     = rev (remdups (rev xs)) @ filter (\<lambda>y. y \<notin> set xs) (rev (remdups (rev ys)))"
proof (induction xs)
  case Nil
  then show ?case by simp
next
  case (Cons x xs)
  have "rev (remdups (rev ((x # xs) @ ys))) = x # filter (\<lambda>y. y \<noteq> x) (rev (remdups (rev (xs @ ys))))"
    using first_occurrences_Cons [of x "xs @ ys"] by simp
  also have "\<dots> = x # filter (\<lambda>y. y \<noteq> x) (rev (remdups (rev xs)))
      @ filter (\<lambda>y. y \<noteq> x) (filter (\<lambda>y. y \<notin> set xs) (rev (remdups (rev ys))))"
    by (simp only: Cons.IH filter_append)
  also have "filter (\<lambda>y. y \<noteq> x) (filter (\<lambda>y. y \<notin> set xs) (rev (remdups (rev ys))))
      = filter (\<lambda>y. y \<notin> set (x # xs)) (rev (remdups (rev ys)))"
    by (auto intro: filter_cong)
  finally show ?case
    by (simp only: first_occurrences_Cons append_Cons)
qed

lemmas eval_int =
  py_int_def py_nat_def int_strip_def is_int_space_def is_digit_def digit_val_def

section \<open>Accession parsing\<close>

text \<open>\<open>int()\<close> skips only its own white space, so that the digits of the text are those of
  the literal; a literal of more than 4300 digits is refused.\<close>

lemma filter_digit_dropWhile:
  "filter is_digit (dropWhile is_int_space s) = filter is_digit s"
  by (induction s) (auto simp: is_digit_def is_int_space_def Let_def)

lemma filter_digit_int_strip: "filter is_digit (int_strip s) = filter is_digit s"
proof -
  have "filter is_digit (int_strip s)
      = rev (filter is_digit (dropWhile is_int_space (rev (dropWhile is_int_space s))))"
    by (simp add: int_strip_def rev_filter)
  also have "\<dots> = rev (filter is_digit (rev (dropWhile is_int_space s)))"
    by (simp only: filter_digit_dropWhile)
  also have "\<dots> = filter is_digit (dropWhile is_int_space s)"
    by (simp add: rev_filter)
  finally show ?thesis by (simp only: filter_digit_dropWhile)
qed

lemma py_int_digit_limit: "4300 < length (filter is_digit s) \<Longrightarrow> py_int s = None"
proof -
  assume a: "4300 < length (filter is_digit s)"
  then have "4300 < length (filter is_digit (int_strip s))" by (simp only: filter_digit_int_strip)
  then show ?thesis by (cases "int_strip s") (simp_all add: py_int_def)
qed

lemma split_accession_digit_limit:
  "split_accession (''AB123456.'' @ replicate 4301 CHR ''1'') =
     Inl (InvalidAccession (''AB123456.'' @ replicate 4301 CHR ''1''))"
proof -
  have "CHR ''.'' \<notin> set (replicate 4301 CHR ''1'')" by simp
  then have "split_on CHR ''.'' (replicate 4301 CHR ''1'') = [replicate 4301 CHR ''1'']"
    by (rule split_on_no_sep)
  then have "split_on CHR ''.'' (''AB123456.'' @ replicate 4301 CHR ''1'')
      = [''AB123456'', replicate 4301 CHR ''1'']" by simp
  moreover have "py_int (replicate 4301 CHR ''1'') = None"
    by (rule py_int_digit_limit) (simp add: is_digit_def)
  ultimately show ?thesis by (simp add: split_accession_def)
qed

text \<open>
  Claim C4, as the code has it. For an accession of ASCII characters, \<open>split_accession\<close>
  raises its error exactly when the accession does not hold exactly one separator (so
  that it does not split into two parts) or the text after the separator is no integer
  literal for \<open>int()\<close>: white space around the literal (tab, newline, vertical tab, form
  feed, carriage return, blank) is skipped, a sign may come first, then come decimal
  digits, at most 4300, with single underscores allowed between two digits. Otherwise
  it returns the text before the separator and the value of the literal. The sign of
  the value is not checked: the versions \<open>0\<close> and \<open>-1\<close> are returned like any other, for
  every identifier.
\<close>

theorem split_accession_error_iff:
  "(ascii a \<longrightarrow>
      (split_accession a = Inl (InvalidAccession a)) =
        (count_list a CHR ''.'' \<noteq> 1 \<or> py_int (drop 1 (dropWhile (\<lambda>c. c \<noteq> CHR ''.'') a)) = None))
   \<and> (ascii a \<and> split_accession a \<noteq> Inl (InvalidAccession a) \<longrightarrow>
        (\<exists>v. py_int (drop 1 (dropWhile (\<lambda>c. c \<noteq> CHR ''.'') a)) = Some v
           \<and> split_accession a = Inr (takeWhile (\<lambda>c. c \<noteq> CHR ''.'') a, v)))
   \<and> (CHR ''.'' \<notin> set i \<longrightarrow>
        split_accession (i @ ''.0'') = Inr (i, 0) \<and> split_accession (i @ ''.-1'') = Inr (i, - 1))"
proof -
  have iff: "(split_accession a = Inl (InvalidAccession a)) =
     (count_list a CHR ''.'' \<noteq> 1 \<or> py_int (drop 1 (dropWhile (\<lambda>c. c \<noteq> CHR ''.'') a)) = None)"
  proof (cases "count_list a CHR ''.'' = 1")
    case True
    from split_on_one_sep [OF this] show ?thesis
      using True by (simp add: split_accession_def split: option.splits)
  next
    case False
    then have "length (split_on CHR ''.'' a) \<noteq> 2" by (simp add: split_on_length)
    then have "split_accession a = Inl (InvalidAccession a)"
      by (auto simp: split_accession_def split: list.splits)
    with False show ?thesis by simp
  qed
  have ok: "\<exists>v. py_int (drop 1 (dropWhile (\<lambda>c. c \<noteq> CHR ''.'') a)) = Some v
           \<and> split_accession a = Inr (takeWhile (\<lambda>c. c \<noteq> CHR ''.'') a, v)"
    if ok: "split_accession a \<noteq> Inl (InvalidAccession a)"
  proof -
    from ok iff have one: "count_list a CHR ''.'' = 1"
      and "py_int (drop 1 (dropWhile (\<lambda>c. c \<noteq> CHR ''.'') a)) \<noteq> None" by auto
    then obtain v where "py_int (drop 1 (dropWhile (\<lambda>c. c \<noteq> CHR ''.'') a)) = Some v" by auto
    with split_on_one_sep [OF one] show ?thesis by (simp add: split_accession_def)
  qed
  have nonpos: "split_accession (i @ ''.0'') = Inr (i, 0) \<and> split_accession (i @ ''.-1'') = Inr (i, - 1)"
    if i: "CHR ''.'' \<notin> set i"
  proof -
    from i have "count_list (i @ ''.0'') CHR ''.'' = 1" "count_list (i @ ''.-1'') CHR ''.'' = 1"
      by (simp_all add: count_list_0_iff)
    from this [THEN split_on_one_sep] i
    have "split_on CHR ''.'' (i @ ''.0'') = [i, ''0'']" "split_on CHR ''.'' (i @ ''.-1'') = [i, ''-1'']"
      by (simp_all add: takeWhile_append1 dropWhile_append1 takeWhile_append dropWhile_append)
    then show ?thesis by (simp add: split_accession_def eval_int)
  qed
  from iff ok nonpos show ?thesis by blast
qed

theorem split_accession_error_iff_witness:
  "ascii ''AB123456'' \<and> ascii ''AB123456.1.2'' \<and> ascii ''AB123456.x''
   \<and> ascii (''AB123456.1'' @ [CHR 0x1C]) \<and> ascii ''AB123456. +1_0''
   \<and> split_accession ''AB123456'' = Inl (InvalidAccession ''AB123456'')
   \<and> split_accession ''AB123456.1.2'' = Inl (InvalidAccession ''AB123456.1.2'')
   \<and> split_accession ''AB123456.x'' = Inl (InvalidAccession ''AB123456.x'')
   \<and> split_accession (''AB123456.1'' @ [CHR 0x1C]) = Inl (InvalidAccession (''AB123456.1'' @ [CHR 0x1C]))
   \<and> split_accession ''AB123456. +1_0'' = Inr (''AB123456'', 10)
   \<and> split_accession ''AB123456.0'' = Inr (''AB123456'', 0)
   \<and> split_accession ''AB123456.-1'' = Inr (''AB123456'', - 1)"
  using split_accession_error_iff [of "''AB123456''" "''AB123456''"]
    split_accession_error_iff [of "''AB123456.1.2''" "''AB123456''"]
    split_accession_error_iff [of "''AB123456.x''" "''AB123456''"]
    split_accession_error_iff [of "''AB123456.1'' @ [CHR 0x1C]" "''AB123456''"]
    split_accession_error_iff [of "''AB123456. +1_0''" "''AB123456''"]
  by (simp add: eval_int ascii_def)

text \<open>Claim C4 as written fails: an accession with version \<open>0\<close>, and one with a negative
  version, are split without error.\<close>

theorem split_accession_nonpositive_version:
  "split_accession ''X1.0'' = Inr (''X1'', 0) \<and> split_accession ''X1.-1'' = Inr (''X1'', - 1)"
  by (simp add: split_accession_def eval_int)

section \<open>Resolution\<close>

lemmas eval_duplicate_removal =
  duplicate_removal_def range_index_def select_def drop_duplicates_def save_dropped_rows_def
  add_id_version_def split_accession_def idx_to_keep_def group_keys_def group_of_def
  List.map_filter_simps label_def row_def ident_def version_def loc_def upt_rec

text \<open>
  Claim C1 (scenario A). Three records with the accessions \<open>X1.1\<close>, \<open>X1.2\<close>, \<open>X1.2\<close> at
  the insertion indices 0, 1, 2, whatever their other cells: the table returned holds
  exactly the record of index 2; the record of index 1 is written to the debug file with
  the reason \<open>duplicate\<close> and the record of index 0 with the reason \<open>update\<close>.
\<close>

theorem duplicate_removal_scenario_A:
  "duplicate_removal
     (range_index [\<lparr>accession = ''X1.1'', cells = c0\<rparr>,
                   \<lparr>accession = ''X1.2'', cells = c1\<rparr>,
                   \<lparr>accession = ''X1.2'', cells = c2\<rparr>]) []
   = (Inr [(2, \<lparr>accession = ''X1.2'', cells = c2\<rparr>)],
      [(\<lparr>accession = ''X1.2'', cells = c1\<rparr>, None, ''duplicate''),
       (\<lparr>accession = ''X1.1'', cells = c0\<rparr>, Some (''X1'', 1), ''update'')])"
  by (simp add: eval_duplicate_removal eval_int)

section \<open>The run ledger\<close>

text \<open>
  Claim C3, as the code has it. \<open>save_processed_ids\<close> writes the newly processed
  accessions first and the prior snapshot after them, each accession once, at its first
  occurrence in that concatenation: the new batch without repetitions, then the
  accessions of the prior snapshot that are not in the new batch, without repetitions.
  No accession is lost and none is added.
\<close>

theorem save_processed_ids_new_first:
  assumes "load_processed_ids d = Inr old"
  shows "save_processed_ids new d
           = Inr (rev (remdups (rev new)) @ filter (\<lambda>a. a \<notin> set new) (rev (remdups (rev old))))
         \<and> (\<forall>saved. save_processed_ids new d = Inr saved \<longrightarrow>
               distinct saved \<and> set saved = set new \<union> set old)"
proof -
  have "save_processed_ids new d = Inr (rev (remdups (rev (new @ old))))"
    using assms by (simp add: save_processed_ids_def fromkeys_first_occurrences)
  moreover have "distinct (rev (remdups (rev (new @ old))))"
    by (simp only: distinct_rev distinct_remdups)
  moreover have "set (rev (remdups (rev (new @ old)))) = set new \<union> set old"
    by auto
  ultimately show ?thesis
    by (simp only: first_occurrences_append) auto
qed

theorem save_processed_ids_new_first_witness:
  "load_processed_ids
     (Some [\<lparr>fname = ''processed_ids.txt'', ctime = Some 1, flines = Some [''A1.1'', ''B2.3'']\<rparr>])
     = Inr [''A1.1'', ''B2.3'']
   \<and> save_processed_ids [''B2.3'', ''C3.1'']
     (Some [\<lparr>fname = ''processed_ids.txt'', ctime = Some 1, flines = Some [''A1.1'', ''B2.3'']\<rparr>])
     = Inr [''B2.3'', ''C3.1'', ''A1.1'']"
proof -
  have h: "load_processed_ids
     (Some [\<lparr>fname = ''processed_ids.txt'', ctime = Some 1, flines = Some [''A1.1'', ''B2.3'']\<rparr>])
     = Inr [''A1.1'', ''B2.3'']"
    by (simp add: load_processed_ids_def find_latest_processed_ids_file_def max_getctime_def
        endswith_def strip_def is_space_def)
  from save_processed_ids_new_first [OF h, of "[''B2.3'', ''C3.1'']"] h show ?thesis
    by simp
qed

text \<open>Claim C3 as written fails on scenario B: with the prior snapshot \<open>A1.1\<close>, \<open>B2.3\<close>
  and the new batch \<open>B2.3\<close>, \<open>C3.1\<close> the lines written are \<open>B2.3\<close>, \<open>C3.1\<close>, \<open>A1.1\<close>.\<close>

theorem save_processed_ids_scenario_B:
  "save_processed_ids [''B2.3'', ''C3.1'']
     (Some [\<lparr>fname = ''processed_ids.txt'', ctime = Some 1, flines = Some [''A1.1'', ''B2.3'']\<rparr>])
     = Inr [''B2.3'', ''C3.1'', ''A1.1'']
   \<and> save_processed_ids [''B2.3'', ''C3.1'']
     (Some [\<lparr>fname = ''processed_ids.txt'', ctime = Some 1, flines = Some [''A1.1'', ''B2.3'']\<rparr>])
     \<noteq> Inr [''A1.1'', ''B2.3'', ''C3.1'']"
  by (simp add: save_processed_ids_def load_processed_ids_def find_latest_processed_ids_file_def
      max_getctime_def endswith_def strip_def is_space_def fromkeys_def)

section \<open>Loading the stores\<close>

lemma read_removed_total:
  "\<forall>l\<in>set ls. \<exists>p. removed_line l = Inr p \<Longrightarrow> \<exists>m. read_removed ls d = Inr m"
  by (induction ls arbitrary: d) (auto split: sum.splits)

lemma read_removed_distinct:
  "read_removed ls d = Inr m \<Longrightarrow> distinct (map fst d) \<Longrightarrow> distinct (map fst m)"
  by (induction ls arbitrary: d) (auto split: sum.splits simp: AList.distinct_update)

text \<open>The value of a key after the loop is that of the last line with this key; a key
  that no line has keeps the value it had before.\<close>

lemma read_removed_last:
  "read_removed ls d = Inr m \<Longrightarrow>
   map_of m i = (case filter (\<lambda>p. fst p = i) [p. Inr p \<leftarrow> map removed_line ls] of
                   [] \<Rightarrow> map_of d i
                 | q # qs \<Rightarrow> Some (snd (last (q # qs))))"
proof (induction ls arbitrary: d)
  case Nil
  then show ?case by simp
next
  case (Cons l ls)
  from Cons.prems obtain a v where l: "removed_line l = Inr (a, v)"
    and rest: "read_removed ls (AList.update a v d) = Inr m"
    by (auto split: sum.splits)
  from Cons.IH [OF rest] l show ?case
    by (auto simp: update_conv' split: list.splits)
qed

lemmas eval_removed_line =
  removed_line_def split_on.simps strip_def is_space_def py_int_def py_nat_def int_strip_def
  is_int_space_def is_digit_def digit_val_def

text \<open>
  Claim C10. Without the file \<open>load_removed_versions\<close> returns the empty list. With the
  file, a header line and lines that all parse, it returns a dictionary, which is no
  list; the dictionary has every identifier once, and the version of an identifier is
  that of the last line with this identifier, whatever the versions of the earlier lines.
\<close>

theorem load_removed_versions_result:
  assumes "\<forall>l\<in>set ls. \<exists>p. removed_line l = Inr p"
  shows "load_removed_versions Absent = Inr (PyList [])
    \<and> (\<exists>m. load_removed_versions (Content (header # ls)) = Inr (PyDict m)
          \<and> PyDict m \<noteq> PyList []
          \<and> distinct (map fst m)
          \<and> (\<forall>i. map_of m i =
                (case filter (\<lambda>p. fst p = i) [p. Inr p \<leftarrow> map removed_line ls] of
                   [] \<Rightarrow> None
                 | q # qs \<Rightarrow> Some (snd (last (q # qs))))))"
proof -
  from read_removed_total [OF assms] obtain m where m: "read_removed ls [] = Inr m" by blast
  have "load_removed_versions (Content (header # ls)) = Inr (PyDict m)"
    by (simp add: load_removed_versions_def m)
  moreover have "distinct (map fst m)" using read_removed_distinct [OF m] by simp
  moreover have "\<forall>i. map_of m i =
                (case filter (\<lambda>p. fst p = i) [p. Inr p \<leftarrow> map removed_line ls] of
                   [] \<Rightarrow> None
                 | q # qs \<Rightarrow> Some (snd (last (q # qs))))"
    using read_removed_last [OF m] by (auto split: list.splits)
  ultimately show ?thesis by (auto simp: load_removed_versions_def)
qed

text \<open>The versions 2 and then 1 of one identifier: the dictionary holds 1, the last
  seen, not the maximum.\<close>

theorem load_removed_versions_result_witness:
  "removed_line ''X1.2,length'' = Inr (''X1'', 2)
   \<and> removed_line ''X1.1,length'' = Inr (''X1'', 1)
   \<and> load_removed_versions (Content [''accession,filter'', ''X1.2,length'', ''X1.1,length''])
       = Inr (PyDict [(''X1'', 1)])"
proof -
  have h: "\<forall>l\<in>set [''X1.2,length'', ''X1.1,length'']. \<exists>p. removed_line l = Inr p"
    by (simp add: eval_removed_line)
  from load_removed_versions_result [OF h, of "''accession,filter''"] show ?thesis
    by (simp add: load_removed_versions_def eval_removed_line)
qed

section \<open>Pruning\<close>

subsection \<open>What is left in the stores\<close>

lemma dropWhile_rev_dropWhile:
  assumes "xs = [] \<or> \<not> P (hd xs)"
  shows "dropWhile P (rev (dropWhile P (rev xs))) = rev (dropWhile P (rev xs))"
proof (cases "rev (dropWhile P (rev xs)) = []")
  case True
  show ?thesis by (simp only: True dropWhile.simps)
next
  case False
  have "rev xs = takeWhile P (rev xs) @ dropWhile P (rev xs)" by simp
  then have "rev (rev xs) = rev (takeWhile P (rev xs) @ dropWhile P (rev xs))" by (rule arg_cong)
  then have xs: "xs = rev (dropWhile P (rev xs)) @ rev (takeWhile P (rev xs))"
    by (simp only: rev_rev_ident rev_append)
  with False have "hd xs = hd (rev (dropWhile P (rev xs)))"
    by (metis hd_append2)
  moreover from False have "xs \<noteq> []" by auto
  ultimately have "\<not> P (hd (rev (dropWhile P (rev xs))))" using assms by simp
  then show ?thesis by (simp add: dropWhile_eq_self_iff)
qed

lemma strip_strip: "strip (strip s) = strip s"
proof -
  have "dropWhile is_space s = [] \<or> \<not> is_space (hd (dropWhile is_space s))"
    using hd_dropWhile [of is_space s] by blast
  from dropWhile_rev_dropWhile [of "dropWhile is_space s" is_space, OF this] show ?thesis
    by (simp add: strip_def)
qed

lemma stripped_lines_filter:
  "stripped_lines (filter P (stripped_lines raw)) = filter P (stripped_lines raw)"
  by (induction raw) (auto simp: stripped_lines_def strip_strip)

lemma filter_not_shorter:
  "\<not> length (filter P xs) < length xs \<Longrightarrow> filter P xs = xs"
  by (metis filter_True length_filter_less)

lemma select_map: "select (map P xs) xs = filter P xs"
  by (induction xs) (auto simp: select_def)

lemma select_map_comp: "select (map (P \<circ> f) xs) xs = filter (\<lambda>x. P (f x)) xs"
  by (induction xs) (auto simp: select_def)

lemma select_map_fields:
  "select (map (P \<circ> f) xs) (map f xs) = map f (filter (\<lambda>x. P (f x)) xs)"
  by (induction xs) (auto simp: select_def)

lemma select_all_False: "select (map (\<lambda>_. False) xs) ys = []"
  by (induction xs arbitrary: ys) (auto simp: select_def zip_Cons1 split: list.splits)

text \<open>The rows that are kept: those whose accession is in the keep-set when the column is
  read as texts, and none when it is converted.\<close>

lemma keep_rows_text:
  "tc (column_fields i df) \<Longrightarrow>
   rows (keep_rows tc S i df) = filter (\<lambda>r. isin S (cell_at i r)) (rows df)"
  by (simp add: keep_rows_def keep_mask_def column_values_def column_fields_def select_map_comp)

lemma keep_rows_converted:
  "\<not> tc (column_fields i df) \<Longrightarrow> rows (keep_rows tc S i df) = []"
  by (simp add: keep_rows_def keep_mask_def column_values_def column_fields_def comp_def
      isin_def select_all_False)

lemma kept_fields_text:
  "tc (column_fields i df) \<Longrightarrow>
   select (keep_mask tc S i df) (column_fields i df)
     = map (cell_at i) (filter (\<lambda>r. isin S (cell_at i r)) (rows df))"
  by (simp add: keep_mask_def column_values_def column_fields_def select_map_fields)

lemma accessions_filter:
  "{a. Some a \<in> set (map (cell_at i) (filter (\<lambda>r. isin S (cell_at i r)) rs))}
     = {a. Some a \<in> set (map (cell_at i) rs)} \<inter> S"
proof (intro set_eqI iffI)
  fix a
  assume "a \<in> {a. Some a \<in> set (map (cell_at i) (filter (\<lambda>r. isin S (cell_at i r)) rs))}"
  then obtain r where "r \<in> set rs" "isin S (cell_at i r)" "cell_at i r = Some a"
    by auto
  then show "a \<in> {a. Some a \<in> set (map (cell_at i) rs)} \<inter> S"
    by (force simp: isin_def)
next
  fix a
  assume "a \<in> {a. Some a \<in> set (map (cell_at i) rs)} \<inter> S"
  then obtain r where "r \<in> set rs" "cell_at i r = Some a" "a \<in> S"
    by auto
  then have "r \<in> set (filter (\<lambda>r. isin S (cell_at i r)) rs)" by (simp add: isin_def)
  with \<open>cell_at i r = Some a\<close>
  show "a \<in> {a. Some a \<in> set (map (cell_at i) (filter (\<lambda>r. isin S (cell_at i r)) rs))}"
    by force
qed

lemma table_accessions_kept:
  "column_fields i df' = map (cell_at i) (filter (\<lambda>r. isin S (cell_at i r)) (rows df)) \<Longrightarrow>
   table_accessions i df' = table_accessions i df \<inter> S"
  by (simp only: table_accessions_def column_fields_def accessions_filter)

lemma clean_ids_file_accessions:
  "\<exists>raw'. fst (clean_ids_file S None (Content raw)) = Content raw'
          \<and> set (stripped_lines raw') = set (stripped_lines raw) \<inter> S"
proof (cases "length (filter (\<lambda>ln. ln \<in> S) (stripped_lines raw)) < length (stripped_lines raw)")
  case True
  then show ?thesis
    by (auto simp: clean_ids_file_def Let_def stripped_lines_filter)
next
  case False
  from filter_not_shorter [OF this] have "set (stripped_lines raw) \<subseteq> S"
    by (auto simp: filter_id_conv)
  with False show ?thesis
    by (auto simp: clean_ids_file_def Let_def)
qed

lemma clean_removed_ids_file_accessions:
  assumes i: "column_position ''accession'' df = Some i"
    and k: "accession_texts_kept tc wr S df"
  shows "\<exists>df'. fst (clean_removed_ids_file tc wr S None (Content df)) = Content df'
          \<and> column_position ''accession'' df' = Some i
          \<and> table_accessions i df' = table_accessions i df \<inter> S"
proof -
  let ?m = "keep_mask tc S i df"
  from i k have tc: "tc (column_fields i df)"
    and pos: "column_position ''accession'' (wr df ?m) = Some i"
    and fs: "column_fields i (wr df ?m) = select ?m (column_fields i df)"
    by (simp_all add: accession_texts_kept_def)
  show ?thesis
  proof (cases "length (rows (keep_rows tc S i df)) < length (rows df)")
    case True
    from fs kept_fields_text [of tc i df S, OF tc]
    have "column_fields i (wr df ?m) = map (cell_at i) (filter (\<lambda>r. isin S (cell_at i r)) (rows df))"
      by simp
    then have "table_accessions i (wr df ?m) = table_accessions i df \<inter> S"
      by (rule table_accessions_kept)
    with True i pos show ?thesis
      by (simp add: clean_removed_ids_file_def Let_def)
  next
    case False
    with keep_rows_text [of tc i df S, OF tc]
    have "filter (\<lambda>r. isin S (cell_at i r)) (rows df) = rows df"
      using filter_not_shorter [of "\<lambda>r. isin S (cell_at i r)" "rows df"] by simp
    then have "column_fields i df = map (cell_at i) (filter (\<lambda>r. isin S (cell_at i r)) (rows df))"
      by (simp only: column_fields_def)
    then have "table_accessions i df = table_accessions i df \<inter> S"
      by (rule table_accessions_kept)
    with False i show ?thesis
      by (simp add: clean_removed_ids_file_def Let_def)
  qed
qed

lemma clean_metadata_file_accessions:
  assumes i: "column_position ''accession'' df = Some i"
    and k: "accession_texts_kept tc wr S df"
  shows "\<exists>df'. fst (clean_metadata_file tc wr S None (Content df)) = Content df'
          \<and> column_position ''accession'' df' = Some i
          \<and> table_accessions i df' = table_accessions i df \<inter> S"
proof -
  let ?m = "keep_mask tc S i df"
  from i k have tc: "tc (column_fields i df)"
    and pos: "column_position ''accession'' (wr df ?m) = Some i"
    and fs: "column_fields i (wr df ?m) = select ?m (column_fields i df)"
    by (simp_all add: accession_texts_kept_def)
  show ?thesis
  proof (cases "length (rows (keep_rows tc S i df)) < length (rows df)")
    case True
    from fs kept_fields_text [of tc i df S, OF tc]
    have "column_fields i (wr df ?m) = map (cell_at i) (filter (\<lambda>r. isin S (cell_at i r)) (rows df))"
      by simp
    then have "table_accessions i (wr df ?m) = table_accessions i df \<inter> S"
      by (rule table_accessions_kept)
    with True i pos show ?thesis
      by (simp add: clean_metadata_file_def Let_def)
  next
    case False
    with keep_rows_text [of tc i df S, OF tc]
    have "filter (\<lambda>r. isin S (cell_at i r)) (rows df) = rows df"
      using filter_not_shorter [of "\<lambda>r. isin S (cell_at i r)" "rows df"] by simp
    then have "column_fields i df = map (cell_at i) (filter (\<lambda>r. isin S (cell_at i r)) (rows df))"
      by (simp only: column_fields_def)
    then have "table_accessions i df = table_accessions i df \<inter> S"
      by (rule table_accessions_kept)
    with False i show ?thesis
      by (simp add: clean_metadata_file_def Let_def)
  qed
qed

lemma remove_fasta_dir:
  "fst (remove_fasta V U fs (dir, c, m))
     = filter (\<lambda>f. \<not> (f \<in> set fs \<and> splitext_root f \<notin> V \<and> f \<notin> set U)) dir"
proof (induction fs arbitrary: dir c m)
  case Nil
  then show ?case by simp
next
  case (Cons name fs)
  show ?case
  proof (cases "splitext_root name \<notin> V")
    case False
    then show ?thesis
      by (auto simp: Cons.IH Let_def intro: filter_cong)
  next
    case True
    show ?thesis
    proof (cases "name \<in> set U \<or> name \<notin> set dir")
      case True
      with \<open>splitext_root name \<notin> V\<close> show ?thesis
        by (auto simp: Cons.IH Let_def intro!: filter_cong)
    next
      case False
      with \<open>splitext_root name \<notin> V\<close> show ?thesis
        by (auto simp: Cons.IH Let_def removeAll_filter_not_eq intro!: filter_cong)
    qed
  qed
qed

lemma clean_seqs_dir_content:
  "fst (clean_seqs_dir S U (Content all_files))
     = Content (filter (\<lambda>f. \<not> (endswith (lower f) ''.fasta'' \<and> splitext_root f \<notin> first_part ` S \<and> f \<notin> set U))
                  all_files)"
proof -
  obtain dir c m where r: "remove_fasta (first_part ` S) U
      (filter (\<lambda>f. endswith (lower f) ''.fasta'') all_files) (all_files, 0, []) = (dir, c, m)"
    by (cases "remove_fasta (first_part ` S) U
      (filter (\<lambda>f. endswith (lower f) ''.fasta'') all_files) (all_files, 0, [])") auto
  have "fst (remove_fasta (first_part ` S) U (filter (\<lambda>f. endswith (lower f) ''.fasta'') all_files) (all_files, 0, []))
    = filter (\<lambda>f. \<not> (endswith (lower f) ''.fasta'' \<and> splitext_root f \<notin> first_part ` S \<and> f \<notin> set U)) all_files"
    by (simp only: remove_fasta_dir) (auto intro!: filter_cong)
  with r have "dir = filter (\<lambda>f. \<not> (endswith (lower f) ''.fasta'' \<and> splitext_root f \<notin> first_part ` S \<and> f \<notin> set U)) all_files"
    by simp
  with r show ?thesis
    by (simp add: clean_seqs_dir_def Let_def)
qed

lemma clean_seqs_dir_roots:
  "\<exists>all'. fst (clean_seqs_dir S U (Content all_files)) = Content all'
      \<and> fasta_roots all' \<subseteq> fasta_roots all_files
      \<and> (U = [] \<longrightarrow> fasta_roots all' = fasta_roots all_files \<inter> first_part ` S)"
  by (simp only: clean_seqs_dir_content) (auto simp: fasta_roots_def)

lemma clean_profiles_from_data_stores:
  "fst (snd (clean_profiles_from_data ids st)) =
     st\<lparr>ids_file := fst (clean_ids_file (set ids) (ids_write st) (ids_file st)),
        removed_ids_file := fst (clean_removed_ids_file (text_column st) (written st) (set ids)
                                  (removed_write st) (removed_ids_file st)),
        metadata_file := fst (clean_metadata_file (text_column st) (written st) (set ids)
                               (metadata_write st) (metadata_file st)),
        seqs_dir := fst (clean_seqs_dir (set ids) (undeletable st) (seqs_dir st))\<rparr>"
  by (simp add: clean_profiles_from_data_def Let_def split: prod.splits)

text \<open>
  Claim C2, as the code has it. Pruning only removes. For the list of accessions that
  \<open>clean_profiles_from_data\<close> is given:
  \<^item> a version index that can be read, and written when lines are dropped, holds
    afterwards the accessions it held before that are in the list;
  \<^item> the removed log and the metadata table hold afterwards the accessions they held
    before that are in the list, when the file can be read, has an accession column
    that is read as texts, and can be written, the accession fields of the rows that
    are kept as they were read;
  \<^item> the root names of the sequence files afterwards are among those before, and when
    every deletion succeeds they are the root names before that are identifier parts of
    accessions of the list;
  \<^item> a version index, a removed log and a metadata table that is absent or cannot be
    read is left as it is.

  An accession of the list that a store did not hold is not added to it. Nothing is
  stated for a write that fails and for an accession column that pandas converts to
  numbers.
\<close>

theorem clean_profiles_from_data_accessions:
  "(ids_file st = Content raw \<and> ids_write st = None \<longrightarrow>
      (\<exists>raw'. ids_file (fst (snd (clean_profiles_from_data ids st))) = Content raw'
         \<and> set (stripped_lines raw') = set (stripped_lines raw) \<inter> set ids))
   \<and> (removed_ids_file st = Content df \<and> column_position ''accession'' df = Some i
        \<and> removed_write st = None
        \<and> accession_texts_kept (text_column st) (written st) (set ids) df \<longrightarrow>
      (\<exists>df'. removed_ids_file (fst (snd (clean_profiles_from_data ids st))) = Content df'
         \<and> column_position ''accession'' df' = Some i
         \<and> table_accessions i df' = table_accessions i df \<inter> set ids))
   \<and> (metadata_file st = Content dm \<and> column_position ''accession'' dm = Some j
        \<and> metadata_write st = None
        \<and> accession_texts_kept (text_column st) (written st) (set ids) dm \<longrightarrow>
      (\<exists>dm'. metadata_file (fst (snd (clean_profiles_from_data ids st))) = Content dm'
         \<and> column_position ''accession'' dm' = Some j
         \<and> table_accessions j dm' = table_accessions j dm \<inter> set ids))
   \<and> (seqs_dir st = Content all_files \<longrightarrow>
      (\<exists>all'. seqs_dir (fst (snd (clean_profiles_from_data ids st))) = Content all'
         \<and> fasta_roots all' \<subseteq> fasta_roots all_files
         \<and> (undeletable st = [] \<longrightarrow> fasta_roots all' = fasta_roots all_files \<inter> first_part ` set ids)))
   \<and> (ids_file st = Absent \<or> ids_file st = Unreadable \<longrightarrow>
        ids_file (fst (snd (clean_profiles_from_data ids st))) = ids_file st)
   \<and> (removed_ids_file st = Absent \<or> removed_ids_file st = Unreadable \<longrightarrow>
        removed_ids_file (fst (snd (clean_profiles_from_data ids st))) = removed_ids_file st)
   \<and> (metadata_file st = Absent \<or> metadata_file st = Unreadable \<longrightarrow>
        metadata_file (fst (snd (clean_profiles_from_data ids st))) = metadata_file st)"
proof (intro conjI impI)
  assume "ids_file st = Content raw \<and> ids_write st = None"
  with clean_ids_file_accessions [of "set ids" raw]
  show "\<exists>raw'. ids_file (fst (snd (clean_profiles_from_data ids st))) = Content raw'
         \<and> set (stripped_lines raw') = set (stripped_lines raw) \<inter> set ids"
    by (simp add: clean_profiles_from_data_stores)
next
  assume a: "removed_ids_file st = Content df \<and> column_position ''accession'' df = Some i
        \<and> removed_write st = None
        \<and> accession_texts_kept (text_column st) (written st) (set ids) df"
  then have "column_position ''accession'' df = Some i"
    "accession_texts_kept (text_column st) (written st) (set ids) df" by simp_all
  from clean_removed_ids_file_accessions [OF this] a
  show "\<exists>df'. removed_ids_file (fst (snd (clean_profiles_from_data ids st))) = Content df'
         \<and> column_position ''accession'' df' = Some i
         \<and> table_accessions i df' = table_accessions i df \<inter> set ids"
    by (simp add: clean_profiles_from_data_stores)
next
  assume a: "metadata_file st = Content dm \<and> column_position ''accession'' dm = Some j
        \<and> metadata_write st = None
        \<and> accession_texts_kept (text_column st) (written st) (set ids) dm"
  then have "column_position ''accession'' dm = Some j"
    "accession_texts_kept (text_column st) (written st) (set ids) dm" by simp_all
  from clean_metadata_file_accessions [OF this] a
  show "\<exists>dm'. metadata_file (fst (snd (clean_profiles_from_data ids st))) = Content dm'
         \<and> column_position ''accession'' dm' = Some j
         \<and> table_accessions j dm' = table_accessions j dm \<inter> set ids"
    by (simp add: clean_profiles_from_data_stores)
next
  assume "seqs_dir st = Content all_files"
  with clean_seqs_dir_roots [of "set ids" "undeletable st" all_files]
  show "\<exists>all'. seqs_dir (fst (snd (clean_profiles_from_data ids st))) = Content all'
         \<and> fasta_roots all' \<subseteq> fasta_roots all_files
         \<and> (undeletable st = [] \<longrightarrow> fasta_roots all' = fasta_roots all_files \<inter> first_part ` set ids)"
    by (simp add: clean_profiles_from_data_stores)
next
  assume "ids_file st = Absent \<or> ids_file st = Unreadable"
  then show "ids_file (fst (snd (clean_profiles_from_data ids st))) = ids_file st"
    by (auto simp: clean_profiles_from_data_stores clean_ids_file_def)
next
  assume "removed_ids_file st = Absent \<or> removed_ids_file st = Unreadable"
  then show "removed_ids_file (fst (snd (clean_profiles_from_data ids st))) = removed_ids_file st"
    by (auto simp: clean_profiles_from_data_stores clean_removed_ids_file_def)
next
  assume "metadata_file st = Absent \<or> metadata_file st = Unreadable"
  then show "metadata_file (fst (snd (clean_profiles_from_data ids st))) = metadata_file st"
    by (auto simp: clean_profiles_from_data_stores clean_metadata_file_def)
qed

subsection \<open>What is reported\<close>

lemma clean_ids_file_msgs:
  "Removed s n \<in> set (snd (clean_ids_file S failing f)) \<longleftrightarrow>
     s = IDS_FILE \<and> 0 < n \<and> failing = None \<and>
     (\<exists>raw. f = Content raw
        \<and> n = length (stripped_lines raw) - length (filter (\<lambda>ln. ln \<in> S) (stripped_lines raw)))"
  by (cases f; cases failing) (auto simp: clean_ids_file_def Let_def)

lemma clean_removed_ids_file_msgs:
  "Removed s n \<in> set (snd (clean_removed_ids_file tc wr S failing f)) \<longleftrightarrow>
     s = REMOVED_IDS_FILE \<and> 0 < n \<and> failing = None \<and>
     (\<exists>df i. f = Content df \<and> column_position ''accession'' df = Some i
        \<and> n = length (rows df) - length (rows (keep_rows tc S i df)))"
  by (cases f; cases failing) (auto simp: clean_removed_ids_file_def Let_def split: option.splits)

lemma clean_metadata_file_msgs:
  "Removed s n \<in> set (snd (clean_metadata_file tc wr S failing f)) \<longleftrightarrow>
     s = METADATA_FILE \<and> 0 < n \<and> failing = None \<and>
     (\<exists>df i. f = Content df \<and> column_position ''accession'' df = Some i
        \<and> n = length (rows df) - length (rows (keep_rows tc S i df)))"
  by (cases f; cases failing) (auto simp: clean_metadata_file_def Let_def split: option.splits)

lemma remove_fasta_msgs:
  "Removed s n \<in> set (snd (snd (remove_fasta V U fs (dir, c, m)))) \<longleftrightarrow> Removed s n \<in> set m"
  by (induction fs arbitrary: dir c m) (auto simp: Let_def)

lemma remove_fasta_count:
  "distinct fs \<Longrightarrow> set fs \<subseteq> set dir \<Longrightarrow>
   fst (snd (remove_fasta V U fs (dir, c, m)))
     = c + length (filter (\<lambda>f. splitext_root f \<notin> V \<and> f \<notin> set U) fs)"
proof (induction fs arbitrary: dir c m)
  case Nil
  then show ?case by simp
next
  case (Cons name fs)
  from Cons.prems have d: "distinct fs" and sub: "set fs \<subseteq> set dir" and nm: "name \<in> set dir"
    and notin: "name \<notin> set fs" by auto
  from sub notin have sub': "set fs \<subseteq> set (removeAll name dir)" by auto
  show ?case
    using Cons.IH [OF d sub] Cons.IH [OF d sub'] nm
    by (simp add: Let_def)
qed

lemma clean_seqs_dir_msgs:
  assumes "\<forall>all_files. d = Content all_files \<longrightarrow> distinct all_files"
  shows "Removed s n \<in> set (snd (clean_seqs_dir S U d)) \<longleftrightarrow>
     s = SEQS_DIR \<and> 0 < n \<and>
     (\<exists>all_files. d = Content all_files
        \<and> n = length (filter (\<lambda>f. endswith (lower f) ''.fasta'' \<and> splitext_root f \<notin> first_part ` S \<and> f \<notin> set U)
                         all_files))"
proof (cases d)
  case (Content all_files)
  let ?fs = "filter (\<lambda>f. endswith (lower f) ''.fasta'') all_files"
  obtain dir c m where r: "remove_fasta (first_part ` S) U ?fs (all_files, 0, []) = (dir, c, m)"
    by (cases "remove_fasta (first_part ` S) U ?fs (all_files, 0, [])") auto
  from assms Content have "distinct ?fs" "set ?fs \<subseteq> set all_files" by auto
  from remove_fasta_count [OF this, of "first_part ` S" U 0 "[]"] r
  have c: "c = length (filter (\<lambda>f. endswith (lower f) ''.fasta'' \<and> splitext_root f \<notin> first_part ` S \<and> f \<notin> set U)
                         all_files)"
    by (simp add: conj_commute conj_left_commute)
  from remove_fasta_msgs [of _ _ "first_part ` S" U ?fs all_files 0 "[]"] r
  have m: "\<And>s n. Removed s n \<notin> set m" by simp
  from Content r c m show ?thesis
    by (auto simp: clean_seqs_dir_def Let_def)
qed (simp_all add: clean_seqs_dir_def)

lemma clean_profiles_from_data_msgs:
  "snd (snd (clean_profiles_from_data ids st)) =
     snd (clean_ids_file (set ids) (ids_write st) (ids_file st))
     @ snd (clean_removed_ids_file (text_column st) (written st) (set ids)
             (removed_write st) (removed_ids_file st))
     @ snd (clean_metadata_file (text_column st) (written st) (set ids)
             (metadata_write st) (metadata_file st))
     @ snd (clean_seqs_dir (set ids) (undeletable st) (seqs_dir st))"
  by (simp add: clean_profiles_from_data_def Let_def split: prod.splits)

lemmas eval_clean =
  clean_profiles_from_data_def clean_ids_file_def clean_removed_ids_file_def
  clean_metadata_file_def clean_seqs_dir_def stripped_lines_def strip_def is_space_def
  column_position_def keep_rows_def keep_mask_def column_values_def column_fields_def
  cell_at_def isin_def select_def first_part_def splitext_root_def
  endswith_def lower_def lower_char_def Let_def
  example_text_column_def example_written_def decimal_text_def is_digit_def

lemma scenario_C_pruned:
  "clean_profiles_from_data [''A1.2''] scenario_C =
     (0,
      scenario_C
        \<lparr>ids_file := Content [''A1.2''],
         removed_ids_file := Content \<lparr>columns = [''accession'', ''filter''], rows = []\<rparr>,
         metadata_file :=
           Content \<lparr>columns = [''accession'', ''country''], rows = [[Some ''A1.2'', Some ''AT'']]\<rparr>,
         seqs_dir := Content [''A1.fasta'']\<rparr>,
      [Removed IDS_FILE 2, Removed REMOVED_IDS_FILE 1, Removed METADATA_FILE 2,
       RemovedFasta ''B2.fasta'', Removed SEQS_DIR 1])"
  by (simp add: scenario_C_def eval_clean)

theorem clean_profiles_from_data_accessions_witness:
  "accession_texts_kept example_text_column example_written (set [''A1.2''])
     \<lparr>columns = [''accession'', ''filter''], rows = [[Some ''C3.1'', Some ''length'']]\<rparr>
   \<and> accession_texts_kept example_text_column example_written (set [''A1.2''])
     \<lparr>columns = [''accession'', ''country''],
      rows = [[Some ''A1.1'', None], [Some ''A1.2'', Some ''AT''], [Some ''B2.1'', Some ''DE'']]\<rparr>
   \<and> (\<exists>raw'. ids_file (fst (snd (clean_profiles_from_data [''A1.2''] scenario_C))) = Content raw'
         \<and> set (stripped_lines raw') = {''A1.2''})
   \<and> (\<exists>df'. removed_ids_file (fst (snd (clean_profiles_from_data [''A1.2''] scenario_C))) = Content df'
         \<and> column_position ''accession'' df' = Some 0
         \<and> table_accessions 0 df' = {})
   \<and> (\<exists>dm'. metadata_file (fst (snd (clean_profiles_from_data [''A1.2''] scenario_C))) = Content dm'
         \<and> column_position ''accession'' dm' = Some 0
         \<and> table_accessions 0 dm' = {''A1.2''})
   \<and> (\<exists>all'. seqs_dir (fst (snd (clean_profiles_from_data [''A1.2''] scenario_C))) = Content all'
         \<and> fasta_roots all' = {''A1''})"
proof -
  let ?r = "\<lparr>columns = [''accession'', ''filter''], rows = [[Some ''C3.1'', Some ''length'']]\<rparr>"
  let ?m = "\<lparr>columns = [''accession'', ''country''],
      rows = [[Some ''A1.1'', None], [Some ''A1.2'', Some ''AT''], [Some ''B2.1'', Some ''DE'']]\<rparr>"
  have kr: "accession_texts_kept example_text_column example_written (set [''A1.2'']) ?r"
    by (simp add: accession_texts_kept_def eval_clean)
  have km: "accession_texts_kept example_text_column example_written (set [''A1.2'']) ?m"
    by (simp add: accession_texts_kept_def eval_clean)
  have pr: "column_position ''accession'' ?r = Some 0" and pm: "column_position ''accession'' ?m = Some 0"
    by (simp_all add: column_position_def)
  have 1: "set (stripped_lines [''A1.1'', ''A1.2'', ''B2.1'']) \<inter> set [''A1.2''] = {''A1.2''}"
    by (simp add: stripped_lines_def strip_def is_space_def)
  have 2: "table_accessions 0 ?r \<inter> set [''A1.2''] = {}"
    by (auto simp: table_accessions_def column_fields_def cell_at_def)
  have 3: "table_accessions 0 ?m \<inter> set [''A1.2''] = {''A1.2''}"
    by (auto simp: table_accessions_def column_fields_def cell_at_def)
  have 4: "fasta_roots [''A1.fasta'', ''B2.fasta''] \<inter> first_part ` set [''A1.2''] = {''A1''}"
    by (simp add: fasta_roots_def first_part_def splitext_root_def endswith_def lower_def lower_char_def)
  note t = clean_profiles_from_data_accessions [of scenario_C "[''A1.1'', ''A1.2'', ''B2.1'']"
      "[''A1.2'']" ?r 0 ?m 0 "[''A1.fasta'', ''B2.fasta'']"]
  have "\<exists>raw'. ids_file (fst (snd (clean_profiles_from_data [''A1.2''] scenario_C))) = Content raw'
         \<and> set (stripped_lines raw') = set (stripped_lines [''A1.1'', ''A1.2'', ''B2.1'']) \<inter> set [''A1.2'']"
    by (rule t [THEN conjunct1, THEN mp]) (simp add: scenario_C_def)
  then have a: "\<exists>raw'. ids_file (fst (snd (clean_profiles_from_data [''A1.2''] scenario_C))) = Content raw'
         \<and> set (stripped_lines raw') = {''A1.2''}"
    by (simp only: 1)
  have "\<exists>df'. removed_ids_file (fst (snd (clean_profiles_from_data [''A1.2''] scenario_C))) = Content df'
         \<and> column_position ''accession'' df' = Some 0
         \<and> table_accessions 0 df' = table_accessions 0 ?r \<inter> set [''A1.2'']"
    using kr pr by (intro t [THEN conjunct2, THEN conjunct1, THEN mp]) (simp add: scenario_C_def)
  then have b: "\<exists>df'. removed_ids_file (fst (snd (clean_profiles_from_data [''A1.2''] scenario_C))) = Content df'
         \<and> column_position ''accession'' df' = Some 0 \<and> table_accessions 0 df' = {}"
    by (simp only: 2)
  have "\<exists>dm'. metadata_file (fst (snd (clean_profiles_from_data [''A1.2''] scenario_C))) = Content dm'
         \<and> column_position ''accession'' dm' = Some 0
         \<and> table_accessions 0 dm' = table_accessions 0 ?m \<inter> set [''A1.2'']"
    using km pm
    by (intro t [THEN conjunct2, THEN conjunct2, THEN conjunct1, THEN mp]) (simp add: scenario_C_def)
  then have c: "\<exists>dm'. metadata_file (fst (snd (clean_profiles_from_data [''A1.2''] scenario_C))) = Content dm'
         \<and> column_position ''accession'' dm' = Some 0 \<and> table_accessions 0 dm' = {''A1.2''}"
    by (simp only: 3)
  have "\<exists>all'. seqs_dir (fst (snd (clean_profiles_from_data [''A1.2''] scenario_C))) = Content all'
         \<and> fasta_roots all' \<subseteq> fasta_roots [''A1.fasta'', ''B2.fasta'']
         \<and> (undeletable scenario_C = [] \<longrightarrow>
              fasta_roots all' = fasta_roots [''A1.fasta'', ''B2.fasta''] \<inter> first_part ` set [''A1.2''])"
    by (rule t [THEN conjunct2, THEN conjunct2, THEN conjunct2, THEN conjunct1, THEN mp])
       (simp add: scenario_C_def)
  moreover have "undeletable scenario_C = []" by (simp add: scenario_C_def)
  ultimately have d: "\<exists>all'. seqs_dir (fst (snd (clean_profiles_from_data [''A1.2''] scenario_C))) = Content all'
         \<and> fasta_roots all' = {''A1''}"
    using 4 by auto
  from kr km a b c d show ?thesis by (intro conjI)
qed

text \<open>Claim C2 as written fails on scenario C with the keep-set \<open>A1.2\<close>: the removed log
  did not hold \<open>A1.2\<close>, and it does not hold it after pruning.\<close>

theorem clean_profiles_from_data_not_keep_set:
  "removed_ids_file (fst (snd (clean_profiles_from_data [''A1.2''] scenario_C)))
     = Content \<lparr>columns = [''accession'', ''filter''], rows = []\<rparr>
   \<and> table_accessions 0 \<lparr>columns = [''accession'', ''filter''], rows = []\<rparr> \<noteq> set [''A1.2'']"
  by (simp add: scenario_C_pruned) (simp add: table_accessions_def column_fields_def)

text \<open>
  Claim C8, as the code has it. \<open>clean_profiles_from_data\<close> returns the integer 0,
  whatever it removed; it raises in no case, every exception is caught inside. The
  number of rows or files removed from a store is not returned: it is reported to the
  logger, in one message for each store from which something was removed, for a file
  after it has been written (the names in a directory are distinct).
\<close>

theorem clean_profiles_from_data_returns_zero:
  assumes "\<forall>all_files. seqs_dir st = Content all_files \<longrightarrow> distinct all_files"
  shows "fst (clean_profiles_from_data ids st) = 0
   \<and> (Removed s n \<in> set (snd (snd (clean_profiles_from_data ids st))) \<longleftrightarrow>
        0 < n \<and>
        (s = IDS_FILE \<and> ids_write st = None \<and> (\<exists>raw. ids_file st = Content raw
             \<and> n = length (stripped_lines raw) - length (filter (\<lambda>ln. ln \<in> set ids) (stripped_lines raw)))
         \<or> s = REMOVED_IDS_FILE \<and> removed_write st = None \<and> (\<exists>df i. removed_ids_file st = Content df
             \<and> column_position ''accession'' df = Some i
             \<and> n = length (rows df) - length (rows (keep_rows (text_column st) (set ids) i df)))
         \<or> s = METADATA_FILE \<and> metadata_write st = None \<and> (\<exists>df i. metadata_file st = Content df
             \<and> column_position ''accession'' df = Some i
             \<and> n = length (rows df) - length (rows (keep_rows (text_column st) (set ids) i df)))
         \<or> s = SEQS_DIR \<and> (\<exists>all_files. seqs_dir st = Content all_files
             \<and> n = length (filter (\<lambda>f. endswith (lower f) ''.fasta''
                                       \<and> splitext_root f \<notin> first_part ` set ids
                                       \<and> f \<notin> set (undeletable st)) all_files))))"
proof
  show "fst (clean_profiles_from_data ids st) = 0"
    by (simp add: clean_profiles_from_data_def Let_def split: prod.splits)
  show "Removed s n \<in> set (snd (snd (clean_profiles_from_data ids st))) \<longleftrightarrow>
        0 < n \<and>
        (s = IDS_FILE \<and> ids_write st = None \<and> (\<exists>raw. ids_file st = Content raw
             \<and> n = length (stripped_lines raw) - length (filter (\<lambda>ln. ln \<in> set ids) (stripped_lines raw)))
         \<or> s = REMOVED_IDS_FILE \<and> removed_write st = None \<and> (\<exists>df i. removed_ids_file st = Content df
             \<and> column_position ''accession'' df = Some i
             \<and> n = length (rows df) - length (rows (keep_rows (text_column st) (set ids) i df)))
         \<or> s = METADATA_FILE \<and> metadata_write st = None \<and> (\<exists>df i. metadata_file st = Content df
             \<and> column_position ''accession'' df = Some i
             \<and> n = length (rows df) - length (rows (keep_rows (text_column st) (set ids) i df)))
         \<or> s = SEQS_DIR \<and> (\<exists>all_files. seqs_dir st = Content all_files
             \<and> n = length (filter (\<lambda>f. endswith (lower f) ''.fasta''
                                       \<and> splitext_root f \<notin> first_part ` set ids
                                       \<and> f \<notin> set (undeletable st)) all_files)))"
    unfolding clean_profiles_from_data_msgs set_append Un_iff
      clean_ids_file_msgs clean_removed_ids_file_msgs clean_metadata_file_msgs
      clean_seqs_dir_msgs [OF assms]
    by blast
qed

theorem clean_profiles_from_data_returns_zero_witness:
  "seqs_dir scenario_C = Content [''A1.fasta'', ''B2.fasta'']
   \<and> distinct [''A1.fasta'', ''B2.fasta'']
   \<and> fst (clean_profiles_from_data [''A1.2''] scenario_C) = 0
   \<and> Removed IDS_FILE 2 \<in> set (snd (snd (clean_profiles_from_data [''A1.2''] scenario_C)))"
proof -
  have h: "\<forall>all_files. seqs_dir scenario_C = Content all_files \<longrightarrow> distinct all_files"
    by (simp add: scenario_C_def)
  from clean_profiles_from_data_returns_zero [OF h, of "[''A1.2'']" IDS_FILE 2]
  show ?thesis by (simp add: scenario_C_def stripped_lines_def strip_def is_space_def)
qed

text \<open>Claim C8 as written fails on scenario C: two lines are removed from the version
  index, and the value returned is 0.\<close>

theorem clean_profiles_from_data_no_summary:
  "fst (clean_profiles_from_data [''A1.2''] scenario_C) = 0
   \<and> ids_file scenario_C = Content [''A1.1'', ''A1.2'', ''B2.1'']
   \<and> ids_file (fst (snd (clean_profiles_from_data [''A1.2''] scenario_C))) = Content [''A1.2'']"
  by (simp add: scenario_C_pruned) (simp add: scenario_C_def)

subsection \<open>A second run\<close>

text \<open>A second run with the same list changes nothing when the removed log and the
  metadata table are read as texts in both runs and are written with the accession
  fields of the rows that are kept as they were read. A write that fails is taken to
  fail in the same way in both runs.\<close>

lemma clean_ids_file_failing_fixed:
  "fst (clean_ids_file S (Some g) g) = g"
  by (cases g) (auto simp: clean_ids_file_def Let_def)

lemma clean_ids_file_idem:
  "fst (clean_ids_file S failing (fst (clean_ids_file S failing f))) = fst (clean_ids_file S failing f)"
proof (cases f)
  case (Content raw)
  show ?thesis
  proof (cases "length (filter (\<lambda>ln. ln \<in> S) (stripped_lines raw)) < length (stripped_lines raw)")
    case True
    show ?thesis
    proof (cases failing)
      case None
      with Content True show ?thesis
        by (simp add: clean_ids_file_def Let_def stripped_lines_filter)
    next
      case (Some g)
      with Content True have "fst (clean_ids_file S failing f) = g"
        by (simp add: clean_ids_file_def Let_def)
      with Some show ?thesis by (simp add: clean_ids_file_failing_fixed)
    qed
  next
    case False
    with Content show ?thesis
      by (simp add: clean_ids_file_def Let_def)
  qed
qed (simp_all add: clean_ids_file_def)

lemma clean_removed_ids_file_failing_fixed:
  "fst (clean_removed_ids_file tc wr S (Some g) g) = g"
  by (cases g) (auto simp: clean_removed_ids_file_def Let_def split: option.splits)

lemma clean_metadata_file_failing_fixed:
  "fst (clean_metadata_file tc wr S (Some g) g) = g"
  by (cases g) (auto simp: clean_metadata_file_def Let_def split: option.splits)

text \<open>A table that was written with its accession fields as they were read, all of them
  in the keep-set, and that is read as texts again, loses no row.\<close>

lemma rewritten_keeps_rows:
  assumes i: "column_position ''accession'' df = Some i"
    and k: "accession_texts_kept tc wr S df" and r: "kept_texts_reread tc S df"
  shows "column_position ''accession'' (wr df (keep_mask tc S i df)) = Some i
    \<and> \<not> length (rows (keep_rows tc S i (wr df (keep_mask tc S i df))))
          < length (rows (wr df (keep_mask tc S i df)))"
proof -
  let ?m = "keep_mask tc S i df"
  let ?t = "wr df ?m"
  let ?kept = "select ?m (column_fields i df)"
  from i k have tc: "tc (column_fields i df)"
    and pos: "column_position ''accession'' ?t = Some i"
    and fs: "column_fields i ?t = ?kept"
    by (simp_all add: accession_texts_kept_def)
  from i r have re: "?kept = [] \<or> tc ?kept" by (simp add: kept_texts_reread_def)
  from fs kept_fields_text [of tc i df S, OF tc]
  have cf: "map (cell_at i) (rows ?t) = map (cell_at i) (filter (\<lambda>r. isin S (cell_at i r)) (rows df))"
    by (simp add: column_fields_def)
  have "\<not> length (rows (keep_rows tc S i ?t)) < length (rows ?t)"
  proof (cases "?kept = []")
    case True
    with fs have "rows ?t = []" by (simp add: column_fields_def)
    then show ?thesis by (simp add: keep_rows_def select_def)
  next
    case False
    with re fs have tct: "tc (column_fields i ?t)" by simp
    have "isin S (cell_at i r')" if "r' \<in> set (rows ?t)" for r'
    proof -
      from that have "cell_at i r' \<in> set (map (cell_at i) (rows ?t))" by simp
      with cf have "cell_at i r' \<in> set (map (cell_at i) (filter (\<lambda>r. isin S (cell_at i r)) (rows df)))"
        by simp
      then show ?thesis by auto
    qed
    then have "filter (\<lambda>r. isin S (cell_at i r)) (rows ?t) = rows ?t" by (simp add: filter_id_conv)
    with keep_rows_text [of tc i ?t S, OF tct] show ?thesis by simp
  qed
  with pos show ?thesis by simp
qed

lemma clean_removed_ids_file_idem:
  assumes "\<forall>df. f = Content df \<longrightarrow> accession_texts_kept tc wr S df \<and> kept_texts_reread tc S df"
  shows "fst (clean_removed_ids_file tc wr S failing (fst (clean_removed_ids_file tc wr S failing f)))
           = fst (clean_removed_ids_file tc wr S failing f)"
proof (cases f)
  case (Content df)
  show ?thesis
  proof (cases "column_position ''accession'' df")
    case None
    with Content show ?thesis by (simp add: clean_removed_ids_file_def)
  next
    case (Some i)
    show ?thesis
    proof (cases "length (rows (keep_rows tc S i df)) < length (rows df)")
      case False
      with Content Some show ?thesis by (simp add: clean_removed_ids_file_def Let_def)
    next
      case True
      show ?thesis
      proof (cases failing)
        case (Some g)
        with Content \<open>column_position ''accession'' df = Some i\<close> True
        have "fst (clean_removed_ids_file tc wr S failing f) = g"
          by (simp add: clean_removed_ids_file_def Let_def)
        with Some show ?thesis by (simp add: clean_removed_ids_file_failing_fixed)
      next
        case None
        from assms Content have "accession_texts_kept tc wr S df" "kept_texts_reread tc S df"
          by simp_all
        from rewritten_keeps_rows [OF Some this] None Content Some True show ?thesis
          by (simp add: clean_removed_ids_file_def Let_def)
      qed
    qed
  qed
qed (simp_all add: clean_removed_ids_file_def)

lemma clean_metadata_file_idem:
  assumes "\<forall>df. f = Content df \<longrightarrow> accession_texts_kept tc wr S df \<and> kept_texts_reread tc S df"
  shows "fst (clean_metadata_file tc wr S failing (fst (clean_metadata_file tc wr S failing f)))
           = fst (clean_metadata_file tc wr S failing f)"
proof (cases f)
  case (Content df)
  show ?thesis
  proof (cases "column_position ''accession'' df")
    case None
    with Content show ?thesis by (simp add: clean_metadata_file_def)
  next
    case (Some i)
    show ?thesis
    proof (cases "length (rows (keep_rows tc S i df)) < length (rows df)")
      case False
      with Content Some show ?thesis by (simp add: clean_metadata_file_def Let_def)
    next
      case True
      show ?thesis
      proof (cases failing)
        case (Some g)
        with Content \<open>column_position ''accession'' df = Some i\<close> True
        have "fst (clean_metadata_file tc wr S failing f) = g"
          by (simp add: clean_metadata_file_def Let_def)
        with Some show ?thesis by (simp add: clean_metadata_file_failing_fixed)
      next
        case None
        from assms Content have "accession_texts_kept tc wr S df" "kept_texts_reread tc S df"
          by simp_all
        from rewritten_keeps_rows [OF Some this] None Content Some True show ?thesis
          by (simp add: clean_metadata_file_def Let_def)
      qed
    qed
  qed
qed (simp_all add: clean_metadata_file_def)

lemma clean_seqs_dir_idem:
  "fst (clean_seqs_dir S U (fst (clean_seqs_dir S U d))) = fst (clean_seqs_dir S U d)"
proof (cases d)
  case (Content all_files)
  then show ?thesis by (simp only: clean_seqs_dir_content) simp
qed (simp_all add: clean_seqs_dir_def)

lemma clean_profiles_from_data_idempotent_texts:
  assumes "\<forall>df. removed_ids_file st = Content df \<longrightarrow>
             accession_texts_kept (text_column st) (written st) (set ids) df
             \<and> kept_texts_reread (text_column st) (set ids) df"
    and "\<forall>df. metadata_file st = Content df \<longrightarrow>
             accession_texts_kept (text_column st) (written st) (set ids) df
             \<and> kept_texts_reread (text_column st) (set ids) df"
  shows "fst (snd (clean_profiles_from_data ids (fst (snd (clean_profiles_from_data ids st)))))
     = fst (snd (clean_profiles_from_data ids st))"
  using clean_removed_ids_file_idem [OF assms(1)] clean_metadata_file_idem [OF assms(2)]
  by (simp add: clean_profiles_from_data_stores clean_ids_file_idem clean_seqs_dir_idem)

lemma scenario_C_idempotent:
  "fst (snd (clean_profiles_from_data [''A1.2'']
              (fst (snd (clean_profiles_from_data [''A1.2''] scenario_C)))))
     = fst (snd (clean_profiles_from_data [''A1.2''] scenario_C))"
proof -
  have "\<forall>df. removed_ids_file scenario_C = Content df \<longrightarrow>
             accession_texts_kept (text_column scenario_C) (written scenario_C) (set [''A1.2'']) df
             \<and> kept_texts_reread (text_column scenario_C) (set [''A1.2'']) df"
    by (simp add: scenario_C_def accession_texts_kept_def kept_texts_reread_def eval_clean)
  moreover have "\<forall>df. metadata_file scenario_C = Content df \<longrightarrow>
             accession_texts_kept (text_column scenario_C) (written scenario_C) (set [''A1.2'']) df
             \<and> kept_texts_reread (text_column scenario_C) (set [''A1.2'']) df"
    by (simp add: scenario_C_def accession_texts_kept_def kept_texts_reread_def eval_clean)
  ultimately show ?thesis by (rule clean_profiles_from_data_idempotent_texts)
qed

text \<open>
  Claim C7 at a metadata table with the accessions \<open>A1.1\<close> and \<open>12345.1\<close> and the list
  that holds \<open>12345.1\<close> only. The first run reads the accession column as texts, because
  of \<open>A1.1\<close>, and keeps the row of \<open>12345.1\<close>, as the docstring of the function says
  (\<open>keep only rows whose 'accession' is in ids_list\<close>). The second run with the same list
  reads the column that is left, whose only field is \<open>12345.1\<close>, as numbers, since
  \<open>pd.read_csv\<close> is called without \<open>dtype=str\<close>. No number is in the set of texts
  \<open>keep_set\<close>: the row is deleted. So the second run is no no-op, and it removes a
  profile that is in the list. The version index, which is read as lines of text, holds
  \<open>12345.1\<close> after both runs.
\<close>

theorem clean_profiles_from_data_second_pass:
  "metadata_file (fst (snd (clean_profiles_from_data [''12345.1''] numeric_stores)))
     = Content \<lparr>columns = [''accession'', ''country''], rows = [[Some ''12345.1'', Some ''DE'']]\<rparr>
   \<and> metadata_file (fst (snd (clean_profiles_from_data [''12345.1'']
                         (fst (snd (clean_profiles_from_data [''12345.1''] numeric_stores))))))
     = Content \<lparr>columns = [''accession'', ''country''], rows = []\<rparr>
   \<and> ids_file (fst (snd (clean_profiles_from_data [''12345.1'']
                         (fst (snd (clean_profiles_from_data [''12345.1''] numeric_stores))))))
     = Content [''12345.1'']"
  by (simp add: numeric_stores_def eval_clean)


section \<open>Version supersession\<close>

subsection \<open>The steps of \<open>duplicate_removal\<close>\<close>

lemma drop_duplicates_Nil [simp]: "drop_duplicates [] = []"
  by (simp add: drop_duplicates_def select_def)

lemma drop_duplicates_Cons:
  "drop_duplicates (r # rs) =
     (if accession (snd r) \<in> set (map (accession \<circ> snd) rs) then drop_duplicates rs
      else r # drop_duplicates rs)"
  by (simp add: drop_duplicates_def select_def)

lemma no_duplicates_drop:
  "select (duplicated e) e = [] \<Longrightarrow> drop_duplicates e = e"
  by (induction e) (auto simp: drop_duplicates_def select_def split: if_splits)

lemma set_drop_duplicates: "set (drop_duplicates e) \<subseteq> set e"
  by (induction e) (auto simp: drop_duplicates_Cons)

lemma accessions_drop_duplicates:
  "(accession \<circ> snd) ` set (drop_duplicates e) = (accession \<circ> snd) ` set e"
  by (induction e) (auto simp: drop_duplicates_Cons)

lemma distinct_drop_duplicates:
  "distinct (map fst e) \<Longrightarrow> distinct (map fst (drop_duplicates e))"
  using set_drop_duplicates by (induction e) (fastforce simp: drop_duplicates_Cons)+

lemma apply_split_rows:
  "apply_split e = Inr ks \<Longrightarrow>
   map (\<lambda>k. (label k, row k)) ks = e
   \<and> (\<forall>k\<in>set ks. split_accession (accession (row k)) = Inr (ident k, version k))"
proof (induction e arbitrary: ks)
  case Nil
  then show ?case by simp
next
  case (Cons a e)
  obtain l r where a: "a = (l, r)" by (cases a)
  from Cons.prems a obtain i v ks' where s: "split_accession (accession r) = Inr (i, v)"
    and ks': "apply_split e = Inr ks'" and ks: "ks = (l, r, i, v) # ks'"
    by (auto split: sum.splits prod.splits)
  from Cons.IH [OF ks'] s a ks show ?case
    by (simp add: label_def row_def ident_def version_def)
qed

lemma apply_split_total:
  "\<forall>p\<in>set e. \<exists>q. split_accession (accession (snd p)) = Inr q \<Longrightarrow> \<exists>ks. apply_split e = Inr ks"
proof (induction e)
  case Nil
  then show ?case by simp
next
  case (Cons a e)
  obtain l r where a: "a = (l, r)" by (cases a)
  from Cons.prems a obtain i v where s: "split_accession (accession r) = Inr (i, v)" by auto
  from Cons.prems have "\<forall>p\<in>set e. \<exists>q. split_accession (accession (snd p)) = Inr q" by simp
  from Cons.IH [OF this] obtain ks where "apply_split e = Inr ks" by blast
  with s a show ?case by simp
qed

lemma idxmax_from_max:
  "\<exists>m. (idxmax_from l v rest, m) \<in> set ((l, v) # rest) \<and> (\<forall>p\<in>set ((l, v) # rest). snd p \<le> m)"
proof (induction rest arbitrary: l v)
  case Nil
  then show ?case by simp
next
  case (Cons a rest)
  obtain l' v' where a: "a = (l', v')" by (cases a)
  show ?case
  proof (cases "v < v'")
    case True
    from Cons.IH [of l' v'] obtain m where
      "(idxmax_from l' v' rest, m) \<in> set ((l', v') # rest)" "\<forall>p\<in>set ((l', v') # rest). snd p \<le> m"
      by blast
    with True a show ?thesis by (intro exI [of _ m]) auto
  next
    case False
    from Cons.IH [of l v] obtain m where
      "(idxmax_from l v rest, m) \<in> set ((l, v) # rest)" "\<forall>p\<in>set ((l, v) # rest). snd p \<le> m"
      by blast
    with False a show ?thesis by (intro exI [of _ m]) auto
  qed
qed

lemma idxmax_max:
  "idxmax g = Some l \<Longrightarrow> \<exists>m. (l, m) \<in> set g \<and> (\<forall>p\<in>set g. snd p \<le> m)"
  using idxmax_from_max by (cases g) (auto split: prod.splits)

lemma idxmax_Some: "g \<noteq> [] \<Longrightarrow> \<exists>l. idxmax g = Some l"
  by (cases g) auto

lemma set_map_filter: "set (List.map_filter f xs) = {y. \<exists>x\<in>set xs. f x = Some y}"
  by (induction xs) (auto split: option.splits)

lemma set_idx_to_keep:
  "set (idx_to_keep ks) =
     {l. \<exists>i\<in>ident ` set ks. idxmax (map (\<lambda>k. (label k, version k)) (group_of i ks)) = Some l}"
  by (auto simp: idx_to_keep_def set_map_filter group_keys_def)

lemma kept_of_ident:
  assumes d: "distinct (map label ks)" and i: "i \<in> ident ` set ks"
  shows "\<exists>k\<in>set ks. ident k = i \<and> label k \<in> set (idx_to_keep ks)
            \<and> (\<forall>k'\<in>set ks. ident k' = i \<longrightarrow> version k' \<le> version k)
            \<and> (\<forall>k'\<in>set ks. ident k' = i \<and> label k' \<in> set (idx_to_keep ks) \<longrightarrow> k' = k)"
proof -
  let ?g = "\<lambda>j. map (\<lambda>k. (label k, version k)) (group_of j ks)"
  have inj: "inj_on label (set ks)" using d by (simp add: distinct_map)
  from i have "?g i \<noteq> []" by (auto simp: group_of_def filter_empty_conv)
  from idxmax_Some [OF this] obtain l where l: "idxmax (?g i) = Some l" by blast
  from idxmax_max [OF l] obtain m where lm: "(l, m) \<in> set (?g i)"
    and mx: "\<forall>p\<in>set (?g i). snd p \<le> m" by blast
  from lm obtain k where k: "k \<in> set ks" "ident k = i" "label k = l" "version k = m"
    by (auto simp: group_of_def)
  from i l have lidx: "l \<in> set (idx_to_keep ks)" by (auto simp: set_idx_to_keep)
  have max: "version k' \<le> version k" if "k' \<in> set ks" "ident k' = i" for k'
  proof -
    from that have "(label k', version k') \<in> set (?g i)" by (auto simp: group_of_def)
    with mx k show ?thesis by auto
  qed
  have uniq: "k' = k" if k': "k' \<in> set ks" "ident k' = i" "label k' \<in> set (idx_to_keep ks)" for k'
  proof -
    from k'(3) obtain j where j: "idxmax (?g j) = Some (label k')"
      by (auto simp: set_idx_to_keep)
    from idxmax_max [OF j] obtain m' where "(label k', m') \<in> set (?g j)" by blast
    then obtain k'' where k'': "k'' \<in> set ks" "ident k'' = j" "label k'' = label k'"
      by (auto simp: group_of_def)
    from inj k''(1) k'(1) k''(3) have "k'' = k'" by (auto dest: inj_onD)
    with k'' k'(2) have "j = i" by simp
    with j l have "label k' = l" by simp
    with k(3) inj k'(1) k(1) show ?thesis by (auto dest: inj_onD)
  qed
  from k lidx max uniq show ?thesis by blast
qed

lemma set_loc: "set (loc idx ks) = {k \<in> set ks. label k \<in> set idx}"
  by (auto simp: loc_def)

lemma set_entries2:
  "set (if filter (\<lambda>k. label k \<notin> set idx) ks \<noteq> [] then loc idx ks else ks)
     = {k \<in> set ks. label k \<in> set idx}"
  by (auto simp: set_loc filter_empty_conv)

lemma range_index_labels: "map fst (range_index rs) = [0..<length rs]"
  by (simp add: range_index_def)

lemma range_index_rows: "snd ` set (range_index rs) = set rs"
  by (simp add: range_index_def flip: set_map)

text \<open>What \<open>duplicate_removal\<close> returns, as a set of rows.\<close>

lemma duplicate_removal_result:
  assumes "\<forall>r\<in>set rs. \<exists>q. split_accession (accession r) = Inr q" and "rs \<noteq> []"
  obtains ks kept dbg' where
    "duplicate_removal (range_index rs) dbg = (Inr kept, dbg')"
    "set kept = (\<lambda>k. (label k, row k)) ` {k \<in> set ks. label k \<in> set (idx_to_keep ks)}"
    "distinct (map label ks)"
    "(\<lambda>k. (label k, row k)) ` set ks \<subseteq> set (range_index rs)"
    "(accession \<circ> row) ` set ks = accession ` set rs"
    "\<forall>k\<in>set ks. split_accession (accession (row k)) = Inr (ident k, version k)"
proof -
  let ?e = "range_index rs"
  let ?e1 = "if select (duplicated ?e) ?e \<noteq> [] then drop_duplicates ?e else ?e"
  have e1: "?e1 = drop_duplicates ?e" using no_duplicates_drop [of ?e] by auto
  from assms(2) have "?e \<noteq> []" by (cases rs) (simp_all add: range_index_def upt_rec)
  then have ne: "drop_duplicates ?e \<noteq> []"
    using accessions_drop_duplicates [of ?e] by (metis image_is_empty set_empty)
  have "\<forall>p\<in>set (drop_duplicates ?e). \<exists>q. split_accession (accession (snd p)) = Inr q"
    using set_drop_duplicates [of ?e] assms(1) range_index_rows [of rs] by blast
  from apply_split_total [OF this] obtain ks where ks: "apply_split (drop_duplicates ?e) = Inr ks"
    by blast
  from apply_split_rows [OF ks] have rows: "map (\<lambda>k. (label k, row k)) ks = drop_duplicates ?e"
    and split: "\<forall>k\<in>set ks. split_accession (accession (row k)) = Inr (ident k, version k)"
    by blast+
  from rows have "map label ks = map fst (drop_duplicates ?e)"
    by (metis (no_types, lifting) fst_conv map_map comp_def map_eq_conv)
  with distinct_drop_duplicates [of ?e] have d: "distinct (map label ks)"
    by (simp add: range_index_labels)
  from rows have img: "(\<lambda>k. (label k, row k)) ` set ks = set (drop_duplicates ?e)"
    by (metis set_map)
  with set_drop_duplicates [of ?e] have sub: "(\<lambda>k. (label k, row k)) ` set ks \<subseteq> set ?e" by simp
  have "(accession \<circ> row) ` set ks = (accession \<circ> snd) ` ((\<lambda>k. (label k, row k)) ` set ks)"
    by (auto simp: image_image)
  also have "\<dots> = (accession \<circ> snd) ` set ?e"
    by (simp only: img accessions_drop_duplicates)
  also have "\<dots> = accession ` set rs"
    using range_index_rows [of rs] by (metis image_comp)
  finally have acc: "(accession \<circ> row) ` set ks = accession ` set rs" .
  let ?idx = "idx_to_keep ks"
  let ?e2 = "if filter (\<lambda>k. label k \<notin> set ?idx) ks \<noteq> [] then loc ?idx ks else ks"
  have "fst (duplicate_removal ?e dbg) = Inr (map (\<lambda>k. (label k, row k)) ?e2)"
    using ks ne by (simp add: duplicate_removal_def Let_def e1 add_id_version_def)
  then obtain dbg' where res: "duplicate_removal ?e dbg = (Inr (map (\<lambda>k. (label k, row k)) ?e2), dbg')"
    by (cases "duplicate_removal ?e dbg") auto
  have kept: "set (map (\<lambda>k. (label k, row k)) ?e2)
      = (\<lambda>k. (label k, row k)) ` {k \<in> set ks. label k \<in> set ?idx}"
    by (simp only: set_map set_entries2)
  show thesis by (rule that [OF res kept d sub acc split])
qed

subsection \<open>The claims\<close>

text \<open>
  Claim C5. Take records whose accessions all split, and an identifier that occurs among
  them. Then \<open>duplicate_removal\<close> returns a table; it holds exactly one record with
  this identifier; this record is one of the input, at its insertion index; and its
  version is the maximum of the versions of the input records with this identifier.
\<close>

theorem duplicate_removal_keeps_max_version:
  assumes ok: "\<forall>r\<in>set rs. \<exists>q. split_accession (accession r) = Inr q"
    and r: "r \<in> set rs" and ri: "split_accession (accession r) = Inr (i, v)"
  shows "\<exists>kept dbg' l k.
           duplicate_removal (range_index rs) dbg = (Inr kept, dbg')
           \<and> (l, k) \<in> set kept \<and> (l, k) \<in> set (range_index rs)
           \<and> split_accession (accession k)
               = Inr (i, Max {v'. \<exists>r'\<in>set rs. split_accession (accession r') = Inr (i, v')})
           \<and> (\<forall>p\<in>set kept. (\<exists>v'. split_accession (accession (snd p)) = Inr (i, v')) \<longrightarrow> p = (l, k))"
proof -
  let ?M = "{v'. \<exists>r'\<in>set rs. split_accession (accession r') = Inr (i, v')}"
  from r have "rs \<noteq> []" by auto
  from duplicate_removal_result [OF ok this, of dbg] obtain ks kept dbg' where
    res: "duplicate_removal (range_index rs) dbg = (Inr kept, dbg')"
    and kept: "set kept = (\<lambda>k. (label k, row k)) ` {k \<in> set ks. label k \<in> set (idx_to_keep ks)}"
    and d: "distinct (map label ks)"
    and sub: "(\<lambda>k. (label k, row k)) ` set ks \<subseteq> set (range_index rs)"
    and acc: "(accession \<circ> row) ` set ks = accession ` set rs"
    and split: "\<forall>k\<in>set ks. split_accession (accession (row k)) = Inr (ident k, version k)" .
  have in_ks: "\<exists>k'\<in>set ks. ident k' = i \<and> version k' = v'"
    if "r' \<in> set rs" "split_accession (accession r') = Inr (i, v')" for r' v'
  proof -
    from that(1) acc have "accession r' \<in> (accession \<circ> row) ` set ks" by blast
    then obtain k' where "k' \<in> set ks" "accession (row k') = accession r'" by auto
    with split that(2) show ?thesis by force
  qed
  from in_ks [OF r ri] have "i \<in> ident ` set ks" by auto
  from kept_of_ident [OF d this] obtain k where k: "k \<in> set ks" "ident k = i"
    "label k \<in> set (idx_to_keep ks)"
    and max: "\<forall>k'\<in>set ks. ident k' = i \<longrightarrow> version k' \<le> version k"
    and uniq: "\<forall>k'\<in>set ks. ident k' = i \<and> label k' \<in> set (idx_to_keep ks) \<longrightarrow> k' = k"
    by blast
  from k kept have in_kept: "(label k, row k) \<in> set kept" by blast
  from k sub have in_input: "(label k, row k) \<in> set (range_index rs)" by blast
  then have "row k \<in> set rs" using range_index_rows [of rs] by force
  moreover from split k have sk: "split_accession (accession (row k)) = Inr (i, version k)" by auto
  ultimately have mem: "version k \<in> ?M" by blast
  have ub: "y \<le> version k" if "y \<in> ?M" for y
    using that in_ks max by blast
  have "?M \<subseteq> (\<lambda>r'. case split_accession (accession r') of Inr (_, v') \<Rightarrow> v' | Inl _ \<Rightarrow> 0) ` set rs"
    by force
  then have "finite ?M" by (rule finite_surj [rotated]) simp
  from Max_eqI [OF this ub mem] have mx: "Max ?M = version k" by simp
  have only: "p = (label k, row k)"
    if p: "p \<in> set kept" "\<exists>v'. split_accession (accession (snd p)) = Inr (i, v')" for p
  proof -
    from p(1) kept obtain k' where k': "k' \<in> set ks" "label k' \<in> set (idx_to_keep ks)"
      "p = (label k', row k')" by blast
    with split p(2) have "ident k' = i" by force
    with uniq k' show ?thesis by blast
  qed
  from sk mx have sk': "split_accession (accession (row k)) = Inr (i, Max ?M)" by simp
  have "duplicate_removal (range_index rs) dbg = (Inr kept, dbg')
      \<and> (label k, row k) \<in> set kept \<and> (label k, row k) \<in> set (range_index rs)
      \<and> split_accession (accession (row k)) = Inr (i, Max ?M)
      \<and> (\<forall>p\<in>set kept. (\<exists>v'. split_accession (accession (snd p)) = Inr (i, v')) \<longrightarrow> p = (label k, row k))"
    using res in_kept in_input sk' only by (intro conjI ballI impI)
  then show ?thesis
    by (intro exI [of _ kept] exI [of _ dbg'] exI [of _ "label k"] exI [of _ "row k"])
qed

theorem duplicate_removal_keeps_max_version_witness:
  "split_accession ''A1.2'' = Inr (''A1'', 2)
   \<and> duplicate_removal
       (range_index [\<lparr>accession = ''A1.2'', cells = []\<rparr>, \<lparr>accession = ''B7.1'', cells = []\<rparr>,
                     \<lparr>accession = ''A1.10'', cells = []\<rparr>, \<lparr>accession = ''A1.3'', cells = []\<rparr>]) []
     = (Inr [(2, \<lparr>accession = ''A1.10'', cells = []\<rparr>), (1, \<lparr>accession = ''B7.1'', cells = []\<rparr>)],
        [(\<lparr>accession = ''A1.2'', cells = []\<rparr>, Some (''A1'', 2), ''update''),
         (\<lparr>accession = ''A1.3'', cells = []\<rparr>, Some (''A1'', 3), ''update'')])
   \<and> (\<exists>kept dbg' l k.
         duplicate_removal
           (range_index [\<lparr>accession = ''A1.2'', cells = []\<rparr>, \<lparr>accession = ''B7.1'', cells = []\<rparr>,
                         \<lparr>accession = ''A1.10'', cells = []\<rparr>, \<lparr>accession = ''A1.3'', cells = []\<rparr>]) []
           = (Inr kept, dbg')
         \<and> (l, k) \<in> set kept
         \<and> (l, k) \<in> set (range_index [\<lparr>accession = ''A1.2'', cells = []\<rparr>, \<lparr>accession = ''B7.1'', cells = []\<rparr>,
                         \<lparr>accession = ''A1.10'', cells = []\<rparr>, \<lparr>accession = ''A1.3'', cells = []\<rparr>])
         \<and> split_accession (accession k)
               = Inr (''A1'', Max {v'. \<exists>r'\<in>set [\<lparr>accession = ''A1.2'', cells = []\<rparr>, \<lparr>accession = ''B7.1'', cells = []\<rparr>,
                         \<lparr>accession = ''A1.10'', cells = []\<rparr>, \<lparr>accession = ''A1.3'', cells = []\<rparr>].
                              split_accession (accession r') = Inr (''A1'', v')})
         \<and> (\<forall>p\<in>set kept. (\<exists>v'. split_accession (accession (snd p)) = Inr (''A1'', v')) \<longrightarrow> p = (l, k)))"
proof -
  let ?rs = "[\<lparr>accession = ''A1.2'', cells = []\<rparr>, \<lparr>accession = ''B7.1'', cells = []\<rparr>,
              \<lparr>accession = ''A1.10'', cells = []\<rparr>, \<lparr>accession = ''A1.3'', cells = []\<rparr>]"
  have h1: "\<forall>r\<in>set ?rs. \<exists>q. split_accession (accession r) = Inr q"
    by (simp add: split_accession_def eval_int)
  have h2: "\<lparr>accession = ''A1.2'', cells = []\<rparr> \<in> set ?rs" by simp
  have h3: "split_accession (accession \<lparr>accession = ''A1.2'', cells = []\<rparr>) = Inr (''A1'', 2)"
    by (simp add: split_accession_def eval_int)
  have ev: "duplicate_removal (range_index ?rs) []
     = (Inr [(2, \<lparr>accession = ''A1.10'', cells = []\<rparr>), (1, \<lparr>accession = ''B7.1'', cells = []\<rparr>)],
        [(\<lparr>accession = ''A1.2'', cells = []\<rparr>, Some (''A1'', 2), ''update''),
         (\<lparr>accession = ''A1.3'', cells = []\<rparr>, Some (''A1'', 3), ''update'')])"
    by (simp add: eval_duplicate_removal eval_int)
  from h3 have h3': "split_accession ''A1.2'' = Inr (''A1'', 2)" by simp
  from h3' ev duplicate_removal_keeps_max_version [OF h1 h2 h3, of "[]"]
  show ?thesis by (intro conjI)
qed

text \<open>
  Claim C6 at the accessions \<open>X1.01\<close> and \<open>X1.1\<close>, inserted in this order. They are
  different texts, so that both survive the first step, and both have the identifier
  \<open>X1\<close> and the version 1, the maximum. \<open>idxmax\<close> takes the first row with the maximum:
  the record of index 0 is kept and the record of index 1, the most recently supplied,
  is dropped with the reason \<open>update\<close>. The same happens with \<open>X1.1\<close> followed by
  a blank and \<open>X1.1\<close>.
\<close>

theorem duplicate_removal_tie_keeps_first:
  "duplicate_removal
     (range_index [\<lparr>accession = ''X1.01'', cells = c0\<rparr>, \<lparr>accession = ''X1.1'', cells = c1\<rparr>]) []
   = (Inr [(0, \<lparr>accession = ''X1.01'', cells = c0\<rparr>)],
      [(\<lparr>accession = ''X1.1'', cells = c1\<rparr>, Some (''X1'', 1), ''update'')])
   \<and> duplicate_removal
     (range_index [\<lparr>accession = ''X1.1 '', cells = c0\<rparr>, \<lparr>accession = ''X1.1'', cells = c1\<rparr>]) []
   = (Inr [(0, \<lparr>accession = ''X1.1 '', cells = c0\<rparr>)],
      [(\<lparr>accession = ''X1.1'', cells = c1\<rparr>, Some (''X1'', 1), ''update'')])"
  by (simp add: eval_duplicate_removal eval_int)

subsection \<open>The same step in \<open>post_process_metadata\<close>\<close>

lemma filter_single:
  "distinct (map f xs) \<Longrightarrow> x \<in> set xs \<Longrightarrow> filter (\<lambda>y. f y = f x) xs = [x]"
proof (induction xs)
  case Nil
  then show ?case by simp
next
  case (Cons a xs)
  show ?case
  proof (cases "a = x")
    case True
    with Cons.prems(1) have "f x \<notin> f ` set xs" by simp
    then have "\<forall>y\<in>set xs. f y \<noteq> f x" by (metis imageI)
    then have "filter (\<lambda>y. f y = f x) xs = []" by (simp add: filter_empty_conv)
    with True show ?thesis by simp
  next
    case False
    with Cons.prems have x: "x \<in> set xs" by simp
    with Cons.prems(1) have "f a \<noteq> f x" by auto
    with Cons.IH [OF _ x] Cons.prems(1) show ?thesis by simp
  qed
qed

lemma best_rows_single:
  assumes d: "distinct (map label g)" and ne: "g \<noteq> []"
    and s: "sorted (map (\<lambda>k. (ident k, - version k, label k)) g)"
    and i: "\<forall>k\<in>set g. ident k = i"
  shows "\<exists>k\<in>set g. best_rows g = [k]
           \<and> (\<forall>k'\<in>set g. version k' \<le> version k \<and> (version k' = version k \<longrightarrow> label k' \<le> label k))"
proof -
  from ne obtain b others where g: "g = b # others" by (cases g) auto
  let ?mvr = "filter (\<lambda>k. version k = version b) g"
  let ?L = "Max (set (map label ?mvr))"
  have best: "version k' \<le> version b" if "k' \<in> set g" for k'
  proof (cases "k' = b")
    case False
    with that g have "k' \<in> set others" by simp
    with s g have "(ident b, - version b, label b) \<le> (ident k', - version k', label k')" by auto
    moreover from i g have "ident b = i" by simp
    moreover from i that have "ident k' = i" by blast
    ultimately show ?thesis by auto
  qed simp
  from g have b: "b \<in> set ?mvr" by simp
  then have "set (map label ?mvr) \<noteq> {}" by (metis empty_iff imageI set_map)
  then have "?L \<in> set (map label ?mvr)" by (intro Max_in) simp_all
  then obtain k where k: "k \<in> set ?mvr" "label k = ?L" by auto
  from d have "distinct (map label ?mvr)" by (rule distinct_map_filter)
  from filter_single [OF this k(1)] k(2) have "filter (\<lambda>y. label y = ?L) ?mvr = [k]" by simp
  then have br: "best_rows g = [k]" by (simp add: best_rows_def g Let_def)
  from k(1) have kg: "k \<in> set g" and vk: "version k = version b" by auto
  have "version k' \<le> version k \<and> (version k' = version k \<longrightarrow> label k' \<le> label k)"
    if k': "k' \<in> set g" for k'
  proof
    from best [OF k'] vk show "version k' \<le> version k" by simp
    show "version k' = version k \<longrightarrow> label k' \<le> label k"
    proof
      assume "version k' = version k"
      with vk k' have "label k' \<in> set (map label ?mvr)" by auto
      then have "label k' \<le> ?L" by (intro Max_ge) simp_all
      with k(2) show "label k' \<le> label k" by simp
    qed
  qed
  with kg br show ?thesis by blast
qed

lemma set_best_rows: "set (best_rows g) \<subseteq> set g"
  by (cases g) (auto simp: best_rows_def Let_def)

lemma kept_of_ident_metadata:
  assumes d: "distinct (map label ks)" and i: "i \<in> ident ` set ks"
  shows "\<exists>k\<in>set ks. ident k = i
           \<and> {k' \<in> set (concat (rows_to_keep (sort_values ks))). ident k' = i} = {k}
           \<and> (\<forall>k'\<in>set ks. ident k' = i \<longrightarrow>
                 version k' \<le> version k \<and> (version k' = version k \<longrightarrow> label k' \<le> label k))"
proof -
  let ?m = "sort_values ks"
  let ?g = "group_of i ?m"
  have set_m: "set ?m = set ks" by (simp add: sort_values_def)
  from d have "distinct ks" "inj_on label (set ks)" by (simp_all add: distinct_map)
  then have dm: "distinct (map label ?m)" by (simp add: distinct_map sort_values_def)
  then have dg: "distinct (map label ?g)" unfolding group_of_def by (rule distinct_map_filter)
  from i set_m have ne: "?g \<noteq> []" by (auto simp: group_of_def filter_empty_conv)
  have "sorted (map (\<lambda>k. (ident k, - version k, label k)) ?m)"
    unfolding sort_values_def by (rule sorted_sort_key)
  then have sg: "sorted (map (\<lambda>k. (ident k, - version k, label k)) ?g)"
    unfolding group_of_def by (rule sorted_filter)
  have ig: "\<forall>k\<in>set ?g. ident k = i" by (simp add: group_of_def)
  from best_rows_single [OF dg ne sg ig] obtain k where k: "k \<in> set ?g" "best_rows ?g = [k]"
    and mx: "\<forall>k'\<in>set ?g. version k' \<le> version k \<and> (version k' = version k \<longrightarrow> label k' \<le> label k)"
    by blast
  from k(1) set_m have kk: "k \<in> set ks" "ident k = i" by (auto simp: group_of_def)
  have keys: "set (group_keys ?m) = ident ` set ks" using set_m by (simp add: group_keys_def)
  have "{k' \<in> set (concat (rows_to_keep ?m)). ident k' = i} = {k}"
  proof (intro equalityI subsetI)
    fix k' assume "k' \<in> {k' \<in> set (concat (rows_to_keep ?m)). ident k' = i}"
    then obtain j where "k' \<in> set (best_rows (group_of j ?m))" and ik': "ident k' = i"
      by (auto simp: rows_to_keep_def)
    with set_best_rows [of "group_of j ?m"] have "k' \<in> set (group_of j ?m)" by blast
    with ik' have "j = i" by (auto simp: group_of_def)
    with \<open>k' \<in> set (best_rows (group_of j ?m))\<close> k(2) show "k' \<in> {k}" by simp
  next
    fix k' assume k': "k' \<in> {k}"
    from k(2) have "k \<in> set (best_rows (group_of i ?m))" by simp
    moreover from i keys have "i \<in> set (group_keys ?m)" by simp
    ultimately have "k \<in> set (concat (rows_to_keep ?m))"
      unfolding rows_to_keep_def set_concat set_map by blast
    with k' kk show "k' \<in> {k' \<in> set (concat (rows_to_keep ?m)). ident k' = i}"
      by simp
  qed
  moreover have "\<forall>k'\<in>set ks. ident k' = i \<longrightarrow>
                 version k' \<le> version k \<and> (version k' = version k \<longrightarrow> label k' \<le> label k)"
  proof (intro ballI impI)
    fix k' assume "k' \<in> set ks" "ident k' = i"
    with set_m have "k' \<in> set ?g" by (simp add: group_of_def)
    with mx show "version k' \<le> version k \<and> (version k' = version k \<longrightarrow> label k' \<le> label k)"
      by blast
  qed
  ultimately show ?thesis using kk by blast
qed

lemma set_rows_to_keep: "set (concat (rows_to_keep (sort_values ks))) \<subseteq> set ks"
proof
  fix k assume "k \<in> set (concat (rows_to_keep (sort_values ks)))"
  then obtain j where "k \<in> set (best_rows (group_of j (sort_values ks)))"
    by (auto simp: rows_to_keep_def)
  with set_best_rows [of "group_of j (sort_values ks)"] have "k \<in> set (group_of j (sort_values ks))"
    by blast
  then show "k \<in> set ks" by (simp add: group_of_def sort_values_def)
qed

text \<open>
  \<open>post_process_metadata\<close> does resolve the tie the other way. For every identifier of
  the table it keeps exactly one row, a row of the table; no row with this identifier
  has a higher version, and no row with this identifier and the same version has a
  higher insertion index.
\<close>

lemma post_process_metadata_keeps_latest_of_max:
  assumes res: "post_process_metadata (Content rs) = Inr (Some (final_df, removed_df, warnings))"
    and rin: "(l, r) \<in> set (range_index rs)" and sp: "split_accession (accession r) = Inr (i, v)"
  shows "\<exists>kept l' r' v'. final_df = map snd kept \<and> set kept \<subseteq> set (range_index rs)
          \<and> {p \<in> set kept. \<exists>w. split_accession (accession (snd p)) = Inr (i, w)} = {(l', r')}
          \<and> split_accession (accession r') = Inr (i, v') \<and> v \<le> v' \<and> (v = v' \<longrightarrow> l \<le> l')"
proof -
  let ?pair = "\<lambda>k. (label k, row k)"
  from res obtain ks where ks: "apply_split (range_index rs) = Inr ks"
    and final: "final_df = map row (concat (rows_to_keep (sort_values ks)))"
    by (auto simp: post_process_metadata_def add_id_version_def Let_def split: sum.splits if_splits)
  from apply_split_rows [OF ks] have rows: "map ?pair ks = range_index rs"
    and split: "\<forall>k\<in>set ks. split_accession (accession (row k)) = Inr (ident k, version k)"
    by blast+
  from rows have "map label ks = map fst (range_index rs)"
    by (metis (no_types, lifting) fst_conv map_map comp_def map_eq_conv)
  then have d: "distinct (map label ks)" by (simp add: range_index_labels)
  from rows have img: "?pair ` set ks = set (range_index rs)" by (metis set_map)
  with rin obtain k0 where k0: "k0 \<in> set ks" "label k0 = l" "row k0 = r" by force
  with split sp have k0i: "ident k0 = i" "version k0 = v" by force+
  with k0 have "i \<in> ident ` set ks" by blast
  from kept_of_ident_metadata [OF d this] obtain k where k: "k \<in> set ks" "ident k = i"
    and only: "{k' \<in> set (concat (rows_to_keep (sort_values ks))). ident k' = i} = {k}"
    and mx: "\<forall>k'\<in>set ks. ident k' = i \<longrightarrow>
                 version k' \<le> version k \<and> (version k' = version k \<longrightarrow> label k' \<le> label k)"
    by blast
  let ?kept = "map ?pair (concat (rows_to_keep (sort_values ks)))"
  have 1: "final_df = map snd ?kept" by (simp add: final comp_def)
  have 2: "set ?kept \<subseteq> set (range_index rs)"
    using set_rows_to_keep [of ks] img by (simp only: set_map) blast
  have 3: "{p \<in> set ?kept. \<exists>w. split_accession (accession (snd p)) = Inr (i, w)} = {?pair k}"
  proof (intro equalityI subsetI)
    fix p assume "p \<in> {p \<in> set ?kept. \<exists>w. split_accession (accession (snd p)) = Inr (i, w)}"
    then obtain k' w where k': "k' \<in> set (concat (rows_to_keep (sort_values ks)))" "p = ?pair k'"
      and w: "split_accession (accession (row k')) = Inr (i, w)"
      by (simp only: set_map) force
    from k'(1) set_rows_to_keep [of ks] have "k' \<in> set ks" by blast
    with split w have "ident k' = i" by force
    with k'(1) only have "k' = k" by blast
    with k'(2) show "p \<in> {?pair k}" by simp
  next
    fix p assume p: "p \<in> {?pair k}"
    from only have "k \<in> set (concat (rows_to_keep (sort_values ks)))" by blast
    then have "?pair k \<in> set ?kept" by (simp only: set_map) (rule imageI)
    moreover from split k have "split_accession (accession (row k)) = Inr (i, version k)" by force
    ultimately show "p \<in> {p \<in> set ?kept. \<exists>w. split_accession (accession (snd p)) = Inr (i, w)}"
      using p by auto
  qed
  from split k have 4: "split_accession (accession (row k)) = Inr (i, version k)" by force
  from mx k0 k0i have 5: "v \<le> version k" "v = version k \<longrightarrow> l \<le> label k" by force+
  have "final_df = map snd ?kept \<and> set ?kept \<subseteq> set (range_index rs)
          \<and> {p \<in> set ?kept. \<exists>w. split_accession (accession (snd p)) = Inr (i, w)} = {(label k, row k)}
          \<and> split_accession (accession (row k)) = Inr (i, version k) \<and> v \<le> version k
          \<and> (v = version k \<longrightarrow> l \<le> label k)"
    using 1 2 3 4 5 by (intro conjI)
  then show ?thesis
    by (intro exI [of _ ?kept] exI [of _ "label k"] exI [of _ "row k"] exI [of _ "version k"])
qed

lemmas eval_post_process_metadata =
  post_process_metadata_def add_id_version_def range_index_def upt_rec split_accession_def
  sort_values_def rows_to_keep_def group_keys_def group_of_def best_rows_def
  label_def row_def ident_def version_def drop_duplicates_all_def group_warnings_def
  notna_count_def Let_def

text \<open>On \<open>X1.01\<close> followed by \<open>X1.1\<close> it keeps the record of index 1.\<close>

lemma post_process_metadata_tie_keeps_last:
  "post_process_metadata
     (Content [\<lparr>accession = ''X1.01'', cells = c0\<rparr>, \<lparr>accession = ''X1.1'', cells = c1\<rparr>])
   = Inr (Some ([\<lparr>accession = ''X1.1'', cells = c1\<rparr>],
                [\<lparr>accession = ''X1.01'', cells = c0\<rparr>],
                [NotMostRecent ''X1'' ''X1.01'']
                @ (if length (filter (\<lambda>c. c \<noteq> None) c0) < length (filter (\<lambda>c. c \<noteq> None) c1)
                   then [MoreFilled 1 ''X1'' 1] else [])))"
  by (simp add: eval_post_process_metadata eval_int)

text \<open>Scenario D: \<open>Y9.2\<close> at index 3 and \<open>Y9.1\<close> at index 5. The higher version is kept,
  and the warning says that it is not the most recently added row.\<close>

lemma post_process_metadata_scenario_D:
  "post_process_metadata
     (Content [\<lparr>accession = ''A1.1'', cells = []\<rparr>, \<lparr>accession = ''B2.1'', cells = []\<rparr>,
               \<lparr>accession = ''C3.1'', cells = []\<rparr>, \<lparr>accession = ''Y9.2'', cells = []\<rparr>,
               \<lparr>accession = ''D4.1'', cells = []\<rparr>, \<lparr>accession = ''Y9.1'', cells = []\<rparr>])
   = Inr (Some ([\<lparr>accession = ''A1.1'', cells = []\<rparr>, \<lparr>accession = ''B2.1'', cells = []\<rparr>,
                 \<lparr>accession = ''C3.1'', cells = []\<rparr>, \<lparr>accession = ''D4.1'', cells = []\<rparr>,
                 \<lparr>accession = ''Y9.2'', cells = []\<rparr>],
                [\<lparr>accession = ''Y9.1'', cells = []\<rparr>],
                [NotMostRecent ''Y9'' ''Y9.2'']))"
  by (simp add: eval_post_process_metadata eval_int)

section \<open>Stores that cannot be loaded\<close>

lemma version_line_error: "version_line l = Inl e \<Longrightarrow> e = ValueError"
  by (auto simp: version_line_def split: list.splits option.splits)

lemma read_versions_error:
  "\<exists>l\<in>set ls. \<exists>e. version_line l = Inl e \<Longrightarrow> read_versions ls d = Inl ValueError"
proof (induction ls arbitrary: d)
  case Nil
  then show ?case by simp
next
  case (Cons l ls)
  show ?case
  proof (cases "version_line l")
    case (Inl e)
    with version_line_error [OF Inl] show ?thesis by simp
  next
    case (Inr p)
    with Cons.prems have "\<exists>l\<in>set ls. \<exists>e. version_line l = Inl e" by auto
    from Cons.IH [OF this] Inr show ?thesis by (simp split: prod.splits)
  qed
qed

lemma removed_line_error: "removed_line l = Inl e \<Longrightarrow> e = ValueError"
  by (auto simp: removed_line_def split: list.splits option.splits)

lemma read_removed_error:
  "\<exists>l\<in>set ls. \<exists>e. removed_line l = Inl e \<Longrightarrow> read_removed ls d = Inl ValueError"
proof (induction ls arbitrary: d)
  case Nil
  then show ?case by simp
next
  case (Cons l ls)
  show ?case
  proof (cases "removed_line l")
    case (Inl e)
    with removed_line_error [OF Inl] show ?thesis by simp
  next
    case (Inr p)
    with Cons.prems have "\<exists>l\<in>set ls. \<exists>e. removed_line l = Inl e" by auto
    from Cons.IH [OF this] Inr show ?thesis by (simp split: prod.splits)
  qed
qed

lemma apply_split_error:
  "\<exists>p\<in>set f. \<exists>e. split_accession (accession (snd p)) = Inl e \<Longrightarrow> \<exists>e. apply_split f = Inl e"
proof (induction f)
  case Nil
  then show ?case by simp
next
  case (Cons a f)
  obtain l r where a: "a = (l, r)" by (cases a)
  show ?case
  proof (cases "split_accession (accession r)")
    case (Inl e)
    with a show ?thesis by simp
  next
    case (Inr p)
    with Cons.prems a have "\<exists>p\<in>set f. \<exists>e. split_accession (accession (snd p)) = Inl e" by auto
    from Cons.IH [OF this] obtain e where "apply_split f = Inl e" ..
    with Inr a show ?thesis by (simp split: prod.splits)
  qed
qed

lemma post_process_metadata_error:
  assumes "\<exists>r\<in>set rs. \<exists>e. split_accession (accession r) = Inl e"
  shows "\<exists>e. post_process_metadata (Content rs) = Inl e"
proof -
  from assms obtain r e where r: "r \<in> set rs" and e: "split_accession (accession r) = Inl e" by blast
  from r have ne: "rs \<noteq> []" by auto
  from r have "r \<in> snd ` set (range_index rs)" by (simp only: range_index_rows)
  with e have "\<exists>p\<in>set (range_index rs). \<exists>e. split_accession (accession (snd p)) = Inl e" by auto
  from apply_split_error [OF this] obtain e' where "apply_split (range_index rs) = Inl e'" ..
  moreover from ne have "range_index rs \<noteq> []" by (simp add: range_index_def)
  ultimately show ?thesis by (simp add: post_process_metadata_def add_id_version_def)
qed

lemma max_from_None:
  "\<exists>f\<in>set fs. ctime f = None \<Longrightarrow> max_from best t fs = None"
  by (induction fs arbitrary: best t) (auto split: option.splits)

lemma max_getctime_None:
  "max_getctime files = None" if "\<exists>f\<in>set files. ctime f = None"
proof (cases files)
  case Nil
  then show ?thesis by (simp add: max_getctime_def)
next
  case (Cons a fs)
  show ?thesis
  proof (cases "ctime a")
    case None
    with Cons show ?thesis by (simp add: max_getctime_def)
  next
    case (Some t)
    with Cons that have "\<exists>f\<in>set fs. ctime f = None" by auto
    from max_from_None [OF this] Cons Some show ?thesis by (simp add: max_getctime_def)
  qed
qed

lemma load_processed_ids_silent:
  assumes "d = None \<or> (\<exists>listing. d = Some listing
                     \<and> (\<exists>f\<in>set listing. endswith (fname f) ''.txt'' \<and> ctime f = None))"
  shows "load_processed_ids d = Inr []"
  using assms
proof
  assume "d = None"
  then show ?thesis by (simp add: load_processed_ids_def find_latest_processed_ids_file_def)
next
  assume "\<exists>listing. d = Some listing
                   \<and> (\<exists>f\<in>set listing. endswith (fname f) ''.txt'' \<and> ctime f = None)"
  then obtain listing where d: "d = Some listing"
    and "\<exists>f\<in>set (filter (\<lambda>f. endswith (fname f) ''.txt'') listing). ctime f = None"
    by auto
  from max_getctime_None [OF this(2)] d show ?thesis
    by (simp add: load_processed_ids_def find_latest_processed_ids_file_def Let_def)
qed

lemma clean_profiles_from_data_value: "fst (clean_profiles_from_data ids st) = 0"
  by (simp add: clean_profiles_from_data_def Let_def split: prod.splits)

lemmas eval_ledger =
  load_processed_ids_def find_latest_processed_ids_file_def max_getctime_def endswith_def
  strip_def is_space_def

text \<open>
  Claim C9, as the code has it, for lines and accessions of ASCII characters.
  \<^item> The version index, the removed log and the metadata table: a file that exists and
    cannot be read makes \<open>load_local_versions\<close>, \<open>load_removed_versions\<close> and
    \<open>post_process_metadata\<close> raise; so does a line of the version index or of the removed
    log that does not parse, a removed log without its header line, and a row of the
    metadata table whose accession does not split. Nothing is returned then, neither
    an empty nor a partial store.
  \<^item> The ledger: a snapshot that was chosen and cannot be read makes
    \<open>load_processed_ids\<close> raise. But when the snapshot cannot be chosen, because the
    directory cannot be listed or the creation time of one of its \<open>.txt\<close> files cannot be
    read, the exception is caught and \<open>load_processed_ids\<close> returns the empty list.
  \<^item> Pruning: \<open>clean_profiles_from_data\<close> catches the exception of a version index, a
    removed log or a metadata table that cannot be read; it leaves the file as it is,
    reports the error to the logger and returns 0.
\<close>

theorem load_errors:
  "load_local_versions Unreadable = Inl OSError
   \<and> ((\<forall>l\<in>set ls. ascii l) \<and> (\<exists>l\<in>set ls. \<exists>e. version_line l = Inl e)
        \<longrightarrow> load_local_versions (Content ls) = Inl ValueError)
   \<and> load_removed_versions Unreadable = Inl OSError
   \<and> load_removed_versions (Content []) = Inl StopIteration
   \<and> ((\<forall>l\<in>set ls. ascii l) \<and> (\<exists>l\<in>set ls. \<exists>e. removed_line l = Inl e)
        \<longrightarrow> load_removed_versions (Content (header # ls)) = Inl ValueError)
   \<and> post_process_metadata Unreadable = Inl OSError
   \<and> ((\<forall>r\<in>set rs. ascii (accession r)) \<and> (\<exists>r\<in>set rs. \<exists>e. split_accession (accession r) = Inl e)
        \<longrightarrow> (\<exists>e. post_process_metadata (Content rs) = Inl e))
   \<and> (find_latest_processed_ids_file d = Some f \<and> flines f = None \<longrightarrow> load_processed_ids d = Inl OSError)
   \<and> (d = None \<or> (\<exists>listing. d = Some listing
                     \<and> (\<exists>f\<in>set listing. endswith (fname f) ''.txt'' \<and> ctime f = None))
        \<longrightarrow> load_processed_ids d = Inr [])
   \<and> (ids_file st = Unreadable \<longrightarrow>
        fst (clean_profiles_from_data ids st) = 0
        \<and> ids_file (fst (snd (clean_profiles_from_data ids st))) = Unreadable
        \<and> ErrorUpdating IDS_FILE \<in> set (snd (snd (clean_profiles_from_data ids st))))
   \<and> (removed_ids_file st = Unreadable \<longrightarrow>
        fst (clean_profiles_from_data ids st) = 0
        \<and> removed_ids_file (fst (snd (clean_profiles_from_data ids st))) = Unreadable
        \<and> ErrorUpdating REMOVED_IDS_FILE \<in> set (snd (snd (clean_profiles_from_data ids st))))
   \<and> (metadata_file st = Unreadable \<longrightarrow>
        fst (clean_profiles_from_data ids st) = 0
        \<and> metadata_file (fst (snd (clean_profiles_from_data ids st))) = Unreadable
        \<and> ErrorUpdating METADATA_FILE \<in> set (snd (snd (clean_profiles_from_data ids st))))"
proof -
  have 1: "load_local_versions Unreadable = Inl OSError" by (simp add: load_local_versions_def)
  have 2: "load_local_versions (Content ls) = Inl ValueError"
    if "\<exists>l\<in>set ls. \<exists>e. version_line l = Inl e"
    using read_versions_error [OF that] by (simp add: load_local_versions_def)
  have 3: "load_removed_versions Unreadable = Inl OSError" by (simp add: load_removed_versions_def)
  have 4: "load_removed_versions (Content []) = Inl StopIteration"
    by (simp add: load_removed_versions_def)
  have 5: "load_removed_versions (Content (header # ls)) = Inl ValueError"
    if "\<exists>l\<in>set ls. \<exists>e. removed_line l = Inl e"
    using read_removed_error [OF that] by (simp add: load_removed_versions_def)
  have 6: "post_process_metadata Unreadable = Inl OSError" by (simp add: post_process_metadata_def)
  have 7: "\<exists>e. post_process_metadata (Content rs) = Inl e"
    if "\<exists>r\<in>set rs. \<exists>e. split_accession (accession r) = Inl e"
    using that by (rule post_process_metadata_error)
  have 8: "load_processed_ids d = Inl OSError"
    if "find_latest_processed_ids_file d = Some f \<and> flines f = None"
    using that by (simp add: load_processed_ids_def)
  have 9: "load_processed_ids d = Inr []"
    if "d = None \<or> (\<exists>listing. d = Some listing
                     \<and> (\<exists>f\<in>set listing. endswith (fname f) ''.txt'' \<and> ctime f = None))"
    using that by (rule load_processed_ids_silent)
  have 10: "fst (clean_profiles_from_data ids st) = 0
        \<and> ids_file (fst (snd (clean_profiles_from_data ids st))) = Unreadable
        \<and> ErrorUpdating IDS_FILE \<in> set (snd (snd (clean_profiles_from_data ids st)))"
    if "ids_file st = Unreadable"
    using that
    by (simp add: clean_profiles_from_data_value clean_profiles_from_data_stores
        clean_profiles_from_data_msgs clean_ids_file_def)
  have 11: "fst (clean_profiles_from_data ids st) = 0
        \<and> removed_ids_file (fst (snd (clean_profiles_from_data ids st))) = Unreadable
        \<and> ErrorUpdating REMOVED_IDS_FILE \<in> set (snd (snd (clean_profiles_from_data ids st)))"
    if "removed_ids_file st = Unreadable"
    using that
    by (simp add: clean_profiles_from_data_value clean_profiles_from_data_stores
        clean_profiles_from_data_msgs clean_removed_ids_file_def)
  have 12: "fst (clean_profiles_from_data ids st) = 0
        \<and> metadata_file (fst (snd (clean_profiles_from_data ids st))) = Unreadable
        \<and> ErrorUpdating METADATA_FILE \<in> set (snd (snd (clean_profiles_from_data ids st)))"
    if "metadata_file st = Unreadable"
    using that
    by (simp add: clean_profiles_from_data_value clean_profiles_from_data_stores
        clean_profiles_from_data_msgs clean_metadata_file_def)
  show ?thesis
    apply (intro conjI impI)
    subgoal by (rule 1)
    subgoal by (rule 2) simp
    subgoal by (rule 3)
    subgoal by (rule 4)
    subgoal by (rule 5) simp
    subgoal by (rule 6)
    subgoal by (rule 7) simp
    subgoal by (rule 8) simp
    subgoal by (rule 9) simp
    subgoal using 10 by simp
    subgoal using 10 by simp
    subgoal using 10 by simp
    subgoal using 11 by simp
    subgoal using 11 by simp
    subgoal using 11 by simp
    subgoal using 12 by simp
    subgoal using 12 by simp
    subgoal using 12 by simp
    done
qed

theorem load_errors_witness:
  "ascii ''AB123456.1'' \<and> ascii ''AB123457''
   \<and> ascii ''AB123456.1,short'' \<and> ascii ''AB123457,short''
   \<and> (\<exists>l\<in>set [''AB123456.1'', ''AB123457'']. \<exists>e. version_line l = Inl e)
   \<and> load_local_versions (Content [''AB123456.1'', ''AB123457'']) = Inl ValueError
   \<and> (\<exists>l\<in>set [''AB123456.1,short'', ''AB123457,short'']. \<exists>e. removed_line l = Inl e)
   \<and> load_removed_versions
        (Content [''accession,filter'', ''AB123456.1,short'', ''AB123457,short'']) = Inl ValueError
   \<and> (\<exists>e. post_process_metadata
             (Content [\<lparr>accession = ''AB123456.1'', cells = []\<rparr>,
                       \<lparr>accession = ''AB123457'', cells = []\<rparr>]) = Inl e)
   \<and> find_latest_processed_ids_file
        (Some [\<lparr>fname = ''ids_1.txt'', ctime = Some 1, flines = None\<rparr>])
        = Some \<lparr>fname = ''ids_1.txt'', ctime = Some 1, flines = None\<rparr>
   \<and> load_processed_ids (Some [\<lparr>fname = ''ids_1.txt'', ctime = Some 1, flines = None\<rparr>]) = Inl OSError
   \<and> load_processed_ids (Some [\<lparr>fname = ''ids_1.txt'', ctime = None, flines = Some [''AB123456.1'']\<rparr>])
        = Inr []
   \<and> fst (clean_profiles_from_data [''A1.2'']
            (scenario_C\<lparr>ids_file := Unreadable, removed_ids_file := Unreadable,
                         metadata_file := Unreadable\<rparr>)) = 0
   \<and> ids_file (fst (snd (clean_profiles_from_data [''A1.2'']
            (scenario_C\<lparr>ids_file := Unreadable, removed_ids_file := Unreadable,
                         metadata_file := Unreadable\<rparr>)))) = Unreadable
   \<and> removed_ids_file (fst (snd (clean_profiles_from_data [''A1.2'']
            (scenario_C\<lparr>ids_file := Unreadable, removed_ids_file := Unreadable,
                         metadata_file := Unreadable\<rparr>)))) = Unreadable
   \<and> metadata_file (fst (snd (clean_profiles_from_data [''A1.2'']
            (scenario_C\<lparr>ids_file := Unreadable, removed_ids_file := Unreadable,
                         metadata_file := Unreadable\<rparr>)))) = Unreadable
   \<and> ErrorUpdating IDS_FILE \<in> set (snd (snd (clean_profiles_from_data [''A1.2'']
            (scenario_C\<lparr>ids_file := Unreadable, removed_ids_file := Unreadable,
                         metadata_file := Unreadable\<rparr>))))
   \<and> ErrorUpdating REMOVED_IDS_FILE \<in> set (snd (snd (clean_profiles_from_data [''A1.2'']
            (scenario_C\<lparr>ids_file := Unreadable, removed_ids_file := Unreadable,
                         metadata_file := Unreadable\<rparr>))))
   \<and> ErrorUpdating METADATA_FILE \<in> set (snd (snd (clean_profiles_from_data [''A1.2'']
            (scenario_C\<lparr>ids_file := Unreadable, removed_ids_file := Unreadable,
                         metadata_file := Unreadable\<rparr>))))"
proof -
  let ?st = "scenario_C\<lparr>ids_file := Unreadable, removed_ids_file := Unreadable,
                         metadata_file := Unreadable\<rparr>"
  let ?rs = "[\<lparr>accession = ''AB123456.1'', cells = []\<rparr>, \<lparr>accession = ''AB123457'', cells = []\<rparr>]"
  have asc: "ascii ''AB123456.1''" "ascii ''AB123457''"
    "ascii ''AB123456.1,short''" "ascii ''AB123457,short''"
    by (simp_all add: ascii_def)
  have h1: "\<exists>l\<in>set [''AB123456.1'', ''AB123457'']. \<exists>e. version_line l = Inl e"
    by (simp add: version_line_def strip_def is_space_def)
  have h1r: "\<exists>l\<in>set [''AB123456.1,short'', ''AB123457,short'']. \<exists>e. removed_line l = Inl e"
    by (simp add: removed_line_def strip_def is_space_def)
  have h1m: "\<exists>r\<in>set ?rs. \<exists>e. split_accession (accession r) = Inl e"
    by (simp add: split_accession_def)
  have h2: "find_latest_processed_ids_file
        (Some [\<lparr>fname = ''ids_1.txt'', ctime = Some 1, flines = None\<rparr>])
        = Some \<lparr>fname = ''ids_1.txt'', ctime = Some 1, flines = None\<rparr>"
    by (simp add: eval_ledger)
  have h3: "\<exists>f\<in>set [\<lparr>fname = ''ids_1.txt'', ctime = None, flines = Some [''AB123456.1'']\<rparr>].
              endswith (fname f) ''.txt'' \<and> ctime f = None"
    by (simp add: endswith_def)
  have h4: "ids_file ?st = Unreadable" "removed_ids_file ?st = Unreadable"
    "metadata_file ?st = Unreadable" by simp_all
  note a = load_errors [of "[''AB123456.1'', ''AB123457'']" "''accession,filter''" ?rs
      "Some [\<lparr>fname = ''ids_1.txt'', ctime = Some 1, flines = None\<rparr>]"
      "\<lparr>fname = ''ids_1.txt'', ctime = Some 1, flines = None\<rparr>" ?st "[''A1.2'']"]
  note b = load_errors [of "[''AB123456.1,short'', ''AB123457,short'']" "''accession,filter''" "[]"
      "Some [\<lparr>fname = ''ids_1.txt'', ctime = None, flines = Some [''AB123456.1'']\<rparr>]"
      "\<lparr>fname = ''ids_1.txt'', ctime = None, flines = Some [''AB123456.1'']\<rparr>" ?st "[''A1.2'']"]
  from asc have asc1: "\<forall>l\<in>set [''AB123456.1'', ''AB123457'']. ascii l"
    and asc2: "\<forall>l\<in>set [''AB123456.1,short'', ''AB123457,short'']. ascii l"
    and asc3: "\<forall>r\<in>set ?rs. ascii (accession r)" by simp_all
  from a asc1 h1 have c1: "load_local_versions (Content [''AB123456.1'', ''AB123457'']) = Inl ValueError"
    by blast
  from b asc2 h1r have c2: "load_removed_versions
        (Content [''accession,filter'', ''AB123456.1,short'', ''AB123457,short'']) = Inl ValueError"
    by blast
  from a asc3 h1m have c3: "\<exists>e. post_process_metadata (Content ?rs) = Inl e"
    by blast
  from a h2
  have c4: "load_processed_ids (Some [\<lparr>fname = ''ids_1.txt'', ctime = Some 1, flines = None\<rparr>]) = Inl OSError"
    by simp
  from b h3
  have c5: "load_processed_ids (Some [\<lparr>fname = ''ids_1.txt'', ctime = None, flines = Some [''AB123456.1'']\<rparr>])
        = Inr []"
    by blast
  from a h4 have c6: "fst (clean_profiles_from_data [''A1.2''] ?st) = 0"
    "ids_file (fst (snd (clean_profiles_from_data [''A1.2''] ?st))) = Unreadable"
    "removed_ids_file (fst (snd (clean_profiles_from_data [''A1.2''] ?st))) = Unreadable"
    "metadata_file (fst (snd (clean_profiles_from_data [''A1.2''] ?st))) = Unreadable"
    "ErrorUpdating IDS_FILE \<in> set (snd (snd (clean_profiles_from_data [''A1.2''] ?st)))"
    "ErrorUpdating REMOVED_IDS_FILE \<in> set (snd (snd (clean_profiles_from_data [''A1.2''] ?st)))"
    "ErrorUpdating METADATA_FILE \<in> set (snd (snd (clean_profiles_from_data [''A1.2''] ?st)))"
    by blast+
  show ?thesis
    apply (intro conjI)
    apply (rule asc)+
    apply (rule h1)
    apply (rule c1)
    apply (rule h1r)
    apply (rule c2)
    apply (rule c3)
    apply (rule h2)
    apply (rule c4)
    apply (rule c5)
    apply (rule c6)+
    done
qed

text \<open>Claim C9 as written fails: a ledger directory whose snapshot exists and holds an
  accession, but whose creation time cannot be read, is loaded as the empty list; so is
  a directory that cannot be listed.\<close>

theorem load_processed_ids_silent_empty:
  "load_processed_ids (Some [\<lparr>fname = ''ids_1.txt'', ctime = None, flines = Some [''AB123456.1'']\<rparr>])
     = Inr []
   \<and> load_processed_ids None = Inr []"
  by (simp add: eval_ledger)

end
